theory Spec2Isabelle
  imports Complex_Main "HOL-Library.AList" "HOL-Library.Multiset" "HOL-Library.Log_Nat"
begin

section \<open>JavaScript values\<close>

text \<open>
  Values that survive \<^verbatim>\<open>JSON.stringify\<close>/\<^verbatim>\<open>JSON.parse\<close>. An object is the list of its own
  properties in the order they were added, which is the enumeration order for all keys but
  array indices; no read below depends on the order. Numbers are the integer-valued doubles
  the game stores (counters and rounded percentages).
\<close>

datatype json =
    JNull
  | JBool bool
  | JNum int
  | JStr string
  | JArr "json list"
  | JObj "(string \<times> json) list"

text \<open>JavaScript truthiness (\<^verbatim>\<open>!x\<close>, \<^verbatim>\<open>x && y\<close>, \<^verbatim>\<open>x || y\<close>).\<close>

fun truthy :: "json \<Rightarrow> bool" where
  "truthy JNull = False"
| "truthy (JBool b) = b"
| "truthy (JNum n) = (n \<noteq> 0)"
| "truthy (JStr s) = (s \<noteq> [])"
| "truthy (JArr xs) = True"
| "truthy (JObj kvs) = True"

text \<open>
  The text held under a key of \<^verbatim>\<open>localStorage\<close>: either the serialisation of a value
  (\<open>Json v\<close> stands for \<^verbatim>\<open>JSON.stringify(v)\<close>), or a text that \<^verbatim>\<open>JSON.parse\<close> rejects.
\<close>

datatype item = Json json | Raw string

fun JSON_parse :: "item \<Rightarrow> json option" where
  "JSON_parse (Json v) = Some v"
| "JSON_parse (Raw s) = None"

definition JSON_stringify :: "json \<Rightarrow> item" where
  "JSON_stringify v = Json v"

section \<open>The storage medium\<close>

text \<open>
  \<^verbatim>\<open>localStorage\<close>: an ordered list of entries with distinct keys. A medium that is not
  \<open>working\<close> throws at every access (disabled storage, private mode); a working one takes
  every write (no quota).
\<close>

record medium =
  working :: bool
  entries :: "(string \<times> item) list"

definition setItem :: "string \<Rightarrow> item \<Rightarrow> medium \<Rightarrow> medium option" where
  "setItem k v m = (if working m then Some (m\<lparr>entries := AList.update k v (entries m)\<rparr>) else None)"

definition getItem :: "string \<Rightarrow> medium \<Rightarrow> item option option" where
  "getItem k m = (if working m then Some (map_of (entries m) k) else None)"

definition removeItem :: "string \<Rightarrow> medium \<Rightarrow> medium option" where
  "removeItem k m = (if working m then Some (m\<lparr>entries := AList.delete k (entries m)\<rparr>) else None)"

section \<open>StorageManager\<close>

record StorageManager =
  storageAvailable :: bool
  localStorage :: medium

definition storagePrefix :: string where
  "storagePrefix = ''wordchallenge_''"

text \<open>
  \<^verbatim>\<open>checkStorageSupport\<close>: write, read back and remove a test key; any exception means no
  storage. The probe's own writes stay in the medium.
\<close>

definition checkStorageSupport :: "medium \<Rightarrow> bool \<times> medium" where
  "checkStorageSupport m =
     (case setItem ''storage_test'' (Raw ''test'') m of
        None \<Rightarrow> (False, m)
      | Some m1 \<Rightarrow>
          (case getItem ''storage_test'' m1 of
             None \<Rightarrow> (False, m1)
           | Some retrieved \<Rightarrow>
               (case removeItem ''storage_test'' m1 of
                  None \<Rightarrow> (False, m1)
                | Some m2 \<Rightarrow> (retrieved = Some (Raw ''test''), m2))))"

definition setData :: "string \<Rightarrow> json \<Rightarrow> StorageManager \<Rightarrow> bool \<times> StorageManager" where
  "setData key v s =
     (if \<not> storageAvailable s then (False, s)
      else (case setItem (storagePrefix @ key) (JSON_stringify v) (localStorage s) of
              None \<Rightarrow> (False, s)
            | Some m \<Rightarrow> (True, s\<lparr>localStorage := m\<rparr>)))"

definition getData :: "StorageManager \<Rightarrow> string \<Rightarrow> json \<Rightarrow> json" where
  "getData s key defaultValue =
     (if \<not> storageAvailable s then defaultValue
      else (case getItem (storagePrefix @ key) (localStorage s) of
              None \<Rightarrow> defaultValue
            | Some None \<Rightarrow> defaultValue
            | Some (Some it) \<Rightarrow>
                (case JSON_parse it of None \<Rightarrow> defaultValue | Some v \<Rightarrow> v)))"

text \<open>\<^verbatim>\<open>Object.entries(obj).forEach(([key, value]) => this.setData(key, value))\<close>\<close>

fun setAll :: "(string \<times> json) list \<Rightarrow> StorageManager \<Rightarrow> StorageManager" where
  "setAll [] s = s"
| "setAll ((k, v) # kvs) s = setAll kvs (snd (setData k v s))"

definition defaultData :: "(string \<times> json) list" where
  "defaultData =
     [(''totalScore'', JNum 0), (''currentStreak'', JNum 0), (''bestStreak'', JNum 0),
      (''level'', JNum 1), (''totalWords'', JNum 0), (''correctAnswers'', JNum 0),
      (''completedWords'', JArr []), (''missedWords'', JObj []), (''wordAccuracy'', JObj []),
      (''difficultyStats'', JObj []), (''difficulty'', JStr ''easy''),
      (''category'', JStr ''general''), (''initialized'', JBool True)]"

definition resetProgress :: "StorageManager \<Rightarrow> StorageManager" where
  "resetProgress s = setAll defaultData s"

definition init :: "StorageManager \<Rightarrow> StorageManager" where
  "init s =
     (if \<not> truthy (getData s ''initialized'' JNull)
      then snd (setData ''initialized'' (JBool True) (resetProgress s))
      else s)"

definition StorageManager_new :: "medium \<Rightarrow> StorageManager" where
  "StorageManager_new m =
     (let (available, m') = checkStorageSupport m
      in init \<lparr>storageAvailable = available, localStorage = m'\<rparr>)"

section \<open>Number arithmetic\<close>

text \<open>
  JavaScript numbers are IEEE-754 doubles. \<open>fl x\<close> is the double nearest to the rational
  \<open>x\<close> (round to nearest, ties to even, 53-bit significand); the quotients and products of
  the game's counters stay far inside the normal range, so exponent limits play no role.
  \<^verbatim>\<open>Math.round\<close> rounds to the nearest integer, ties towards \<open>+\<infinity>\<close>.
\<close>

definition rne :: "rat \<Rightarrow> int" where
  "rne x = (let f = \<lfloor>x\<rfloor>; d = x - of_int f
            in if d < 1 / 2 then f else if 1 / 2 < d then f + 1
               else if even f then f else f + 1)"

definition ilog2 :: "rat \<Rightarrow> int" where
  "ilog2 x = (let (p, q) = quotient_of x; k = bitlen p - bitlen q
              in if 2 powi k \<le> x then k else k - 1)"

definition fl :: "rat \<Rightarrow> rat" where
  "fl x = (if x = 0 then 0
           else let e = ilog2 \<bar>x\<bar> - 52 in of_int (rne (x / 2 powi e)) * 2 powi e)"

definition Math_round :: "rat \<Rightarrow> int" where
  "Math_round x = \<lfloor>x + 1 / 2\<rfloor>"

text \<open>\<^verbatim>\<open>Math.round((c / t) * 100)\<close> for a non-zero \<open>t\<close>.\<close>

definition js_percent :: "int \<Rightarrow> int \<Rightarrow> int" where
  "js_percent c t = Math_round (fl (fl (of_int c / of_int t) * 100))"

section \<open>Progress ledger\<close>

text \<open>
  The sum of two integer-valued doubles, as \<^verbatim>\<open>+\<close> and \<^verbatim>\<open>++\<close> compute it: the exact sum
  rounded to the nearest double, which is an integer again.
\<close>

definition js_add :: "int \<Rightarrow> int \<Rightarrow> int" where
  "js_add a b = \<lfloor>fl (of_int a + of_int b)\<rfloor>"

text \<open>
  The ledger keeps its maps as JSON objects under fixed keys. A property read such as
  \<^verbatim>\<open>missed[word]\<close> finds the object's own property or, under the names of
  \<^verbatim>\<open>Object.prototype\<close>, the member every plain object inherits: a built-in function, or
  the prototype itself under \<^verbatim>\<open>__proto__\<close>. \<open>inherited\<close> is the text such a member turns
  into when a number is added to it (a built-in function as V8 prints it). An assignment
  \<^verbatim>\<open>obj[key] = v\<close> creates or replaces an own property, except that a number or a string
  assigned to an inherited \<^verbatim>\<open>__proto__\<close> is dropped. A stored value of a shape the
  operations do not expect (JavaScript would coerce further or throw) is outside the model
  and yields \<open>None\<close>.
\<close>

definition Object_prototype_keys :: "string list" where
  "Object_prototype_keys =
     [''constructor'', ''hasOwnProperty'', ''isPrototypeOf'', ''propertyIsEnumerable'',
      ''toLocaleString'', ''toString'', ''valueOf'', ''__proto__'', ''__defineGetter__'',
      ''__defineSetter__'', ''__lookupGetter__'', ''__lookupSetter__'']"

definition native_function :: "string \<Rightarrow> string" where
  "native_function name = ''function '' @ name @ ''() { [native code] }''"

definition inherited :: "string \<Rightarrow> string option" where
  "inherited key =
     (if key = ''__proto__'' then Some ''[object Object]''
      else if key = ''constructor'' then Some (native_function ''Object'')
      else if key \<in> set Object_prototype_keys then Some (native_function key)
      else None)"

definition assign :: "string \<Rightarrow> json \<Rightarrow> (string \<times> json) list \<Rightarrow> (string \<times> json) list" where
  "assign key v kvs =
     (if key = ''__proto__'' \<and> map_of kvs key = None then kvs else AList.update key v kvs)"

definition getCompletedWords :: "StorageManager \<Rightarrow> json" where
  "getCompletedWords s = getData s ''completedWords'' (JArr [])"

definition addCompletedWord :: "string \<Rightarrow> StorageManager \<Rightarrow> StorageManager option" where
  "addCompletedWord word s =
     (case getCompletedWords s of
        JArr completed \<Rightarrow>
          if JStr word \<notin> set completed
          then Some (snd (setData ''completedWords'' (JArr (completed @ [JStr word])) s))
          else Some s
      | _ \<Rightarrow> None)"

definition getMissedWords :: "StorageManager \<Rightarrow> json" where
  "getMissedWords s = getData s ''missedWords'' (JObj [])"

text \<open>
  \<^verbatim>\<open>missed[word] = (missed[word] || 0) + 1\<close>: a number is incremented, a string (what an
  inherited member has become after the first miss) gets the digit appended.
\<close>

definition addMissedWord :: "string \<Rightarrow> StorageManager \<Rightarrow> StorageManager option" where
  "addMissedWord word s =
     (case getMissedWords s of
        JObj missed \<Rightarrow>
          (case map_of missed word of
             None \<Rightarrow>
               (case inherited word of
                  None \<Rightarrow> Some (snd (setData ''missedWords'' (JObj (assign word (JNum 1) missed)) s))
                | Some member \<Rightarrow>
                    Some (snd (setData ''missedWords''
                                 (JObj (assign word (JStr (member @ ''1'')) missed)) s)))
           | Some v \<Rightarrow>
               if \<not> truthy v
               then Some (snd (setData ''missedWords'' (JObj (assign word (JNum 1) missed)) s))
               else (case v of
                       JNum n \<Rightarrow> Some (snd (setData ''missedWords''
                                          (JObj (assign word (JNum (js_add n 1)) missed)) s))
                     | JStr t \<Rightarrow> Some (snd (setData ''missedWords''
                                          (JObj (assign word (JStr (t @ ''1'')) missed)) s))
                     | _ \<Rightarrow> None))
      | _ \<Rightarrow> None)"

text \<open>
  \<^verbatim>\<open>if (missed[word]) { delete missed[word]; setData(...) }\<close>: an inherited member is truthy
  and cannot be deleted from the object, which is then written back as it was.
\<close>

definition removeMissedWord :: "string \<Rightarrow> StorageManager \<Rightarrow> StorageManager option" where
  "removeMissedWord word s =
     (case getMissedWords s of
        JObj missed \<Rightarrow>
          (case map_of missed word of
             None \<Rightarrow>
               (case inherited word of
                  None \<Rightarrow> Some s
                | Some member \<Rightarrow> Some (snd (setData ''missedWords'' (JObj missed) s)))
           | Some v \<Rightarrow>
               if truthy v
               then Some (snd (setData ''missedWords'' (JObj (AList.delete word missed)) s))
               else Some s)
      | _ \<Rightarrow> None)"

definition getWordAccuracy :: "StorageManager \<Rightarrow> json" where
  "getWordAccuracy s = getData s ''wordAccuracy'' (JObj [])"

text \<open>The numeric field \<open>f\<close> of a stored tally object.\<close>

definition num_field :: "(string \<times> json) list \<Rightarrow> string \<Rightarrow> int option" where
  "num_field fs f = (case map_of fs f of Some (JNum n) \<Rightarrow> Some n | _ \<Rightarrow> None)"

text \<open>
  \<^verbatim>\<open>updateWordAccuracy\<close>. Under an inherited name the guard finds a truthy member, no entry
  is created, the increments land on the built-in outside the store, and the map is written
  back as it was.
\<close>

definition updateWordAccuracy :: "string \<Rightarrow> bool \<Rightarrow> StorageManager \<Rightarrow> StorageManager option" where
  "updateWordAccuracy word correct s =
     (case getWordAccuracy s of
        JObj accuracy \<Rightarrow>
          (let entry = (case map_of accuracy word of
                          None \<Rightarrow>
                            (case inherited word of
                               None \<Rightarrow> Some (JObj [(''correct'', JNum 0), (''total'', JNum 0)])
                             | Some member \<Rightarrow> None)
                        | Some v \<Rightarrow>
                            if \<not> truthy v
                            then Some (JObj [(''correct'', JNum 0), (''total'', JNum 0)])
                            else Some v)
           in case entry of
                None \<Rightarrow> Some (snd (setData ''wordAccuracy'' (JObj accuracy) s))
              | Some (JObj fs) \<Rightarrow>
                  (case (num_field fs ''total'', num_field fs ''correct'') of
                     (Some t, Some c) \<Rightarrow>
                       (let fs1 = AList.update ''total'' (JNum (js_add t 1)) fs;
                            fs2 = (if correct then AList.update ''correct'' (JNum (js_add c 1)) fs1
                                   else fs1)
                        in Some (snd (setData ''wordAccuracy''
                                        (JObj (AList.update word (JObj fs2) accuracy)) s)))
                   | _ \<Rightarrow> None)
              | Some _ \<Rightarrow> None)
      | _ \<Rightarrow> None)"

definition getDifficultyStats :: "StorageManager \<Rightarrow> json" where
  "getDifficultyStats s = getData s ''difficultyStats'' (JObj [])"

text \<open>\<^verbatim>\<open>updateDifficultyAccuracy\<close>, with inherited names as in \<open>updateWordAccuracy\<close>.\<close>

definition updateDifficultyAccuracy :: "string \<Rightarrow> bool \<Rightarrow> StorageManager \<Rightarrow> StorageManager option" where
  "updateDifficultyAccuracy difficulty correct s =
     (case getDifficultyStats s of
        JObj difficultyStats \<Rightarrow>
          (let entry = (case map_of difficultyStats difficulty of
                          None \<Rightarrow>
                            (case inherited difficulty of
                               None \<Rightarrow> Some (JObj [(''correct'', JNum 0), (''total'', JNum 0),
                                                   (''accuracy'', JNum 0)])
                             | Some member \<Rightarrow> None)
                        | Some v \<Rightarrow>
                            if \<not> truthy v
                            then Some (JObj [(''correct'', JNum 0), (''total'', JNum 0),
                                             (''accuracy'', JNum 0)])
                            else Some v)
           in case entry of
                None \<Rightarrow> Some (snd (setData ''difficultyStats'' (JObj difficultyStats) s))
              | Some (JObj fs) \<Rightarrow>
                  (case (num_field fs ''total'', num_field fs ''correct'') of
                     (Some t, Some c) \<Rightarrow>
                       (let total' = js_add t 1;
                            correct' = (if correct then js_add c 1 else c);
                            fs1 = AList.update ''total'' (JNum total') fs;
                            fs2 = (if correct then AList.update ''correct'' (JNum correct') fs1 else fs1);
                            accuracy = (if total' > 0 then js_percent correct' total' else 0);
                            fs3 = AList.update ''accuracy'' (JNum accuracy) fs2
                        in Some (snd (setData ''difficultyStats''
                                        (JObj (AList.update difficulty (JObj fs3) difficultyStats)) s)))
                   | _ \<Rightarrow> None)
              | Some _ \<Rightarrow> None)
      | _ \<Rightarrow> None)"

text \<open>
  \<^verbatim>\<open>getAverageAccuracy\<close>: \<^verbatim>\<open>totalWords === 0\<close> is decided on the stored value alone; the
  quotient is modelled for numeric counters.
\<close>

definition getAverageAccuracy :: "StorageManager \<Rightarrow> int option" where
  "getAverageAccuracy s =
     (let totalWords = getData s ''totalWords'' (JNum 0);
          correctAnswers = getData s ''correctAnswers'' (JNum 0)
      in if totalWords = JNum 0 then Some 0
         else (case (totalWords, correctAnswers) of
                 (JNum t, JNum c) \<Rightarrow> Some (js_percent c t)
               | _ \<Rightarrow> None))"

text \<open>
  \<^verbatim>\<open>getWordWeights\<close>: one assignment \<^verbatim>\<open>weights[word] = Math.min(missCount + 1, 5)\<close> per own
  property of the missed-word object, in enumeration order. Assigning a number to
  \<^verbatim>\<open>weights['__proto__']\<close> creates no property.
\<close>

fun weights_loop :: "(string \<times> json) list \<Rightarrow> (string \<times> int) list \<Rightarrow> (string \<times> int) list option" where
  "weights_loop [] weights = Some weights"
| "weights_loop ((word, JNum missCount) # rest) weights =
     weights_loop rest (if word = ''__proto__'' then weights
                        else AList.update word (min (missCount + 1) 5) weights)"
| "weights_loop ((word, _) # rest) weights = None"

definition getWordWeights :: "StorageManager \<Rightarrow> (string \<times> int) list option" where
  "getWordWeights s =
     (case getMissedWords s of JObj missed \<Rightarrow> weights_loop missed [] | _ \<Rightarrow> None)"

text \<open>\<^verbatim>\<open>trackWordProgress\<close> of the game controller, for the current word and difficulty.\<close>

definition trackWordProgress :: "string \<Rightarrow> string \<Rightarrow> bool \<Rightarrow> StorageManager \<Rightarrow> StorageManager option" where
  "trackWordProgress word difficulty isCorrect s =
     (case updateWordAccuracy word isCorrect s of
        None \<Rightarrow> None
      | Some s1 \<Rightarrow>
          (case updateDifficultyAccuracy difficulty isCorrect s1 of
             None \<Rightarrow> None
           | Some s2 \<Rightarrow>
               (case addCompletedWord word s2 of
                  None \<Rightarrow> None
                | Some s3 \<Rightarrow>
                    if isCorrect then removeMissedWord word s3 else addMissedWord word s3)))"

text \<open>Answers for one word at one difficulty, recorded one after the other.\<close>

fun answers :: "string \<Rightarrow> string \<Rightarrow> bool list \<Rightarrow> StorageManager \<Rightarrow> StorageManager option" where
  "answers word difficulty [] s = Some s"
| "answers word difficulty (isCorrect # rest) s =
     (case trackWordProgress word difficulty isCorrect s of
        None \<Rightarrow> None
      | Some s' \<Rightarrow> answers word difficulty rest s')"

section \<open>Export, import and clearing\<close>

text \<open>Decimal notation of an array index, as \<^verbatim>\<open>Object.entries\<close> names the elements of an array.\<close>

fun digit :: "nat \<Rightarrow> char" where
  "digit n = char_of (48 + n)"

function string_of_nat :: "nat \<Rightarrow> string" where
  "string_of_nat n = (if n < 10 then [digit n] else string_of_nat (n div 10) @ [digit (n mod 10)])"
  by pat_completeness auto
termination
  by (relation "measure id") auto

declare string_of_nat.simps [simp del]

definition startsWith :: "string \<Rightarrow> string \<Rightarrow> bool" where
  "startsWith key p = (take (length p) key = p)"

text \<open>
  \<^verbatim>\<open>exportData\<close>: every entry of the medium whose key carries the prefix, under its short
  key; a text that does not parse is exported as a string. An assignment to
  \<^verbatim>\<open>data['__proto__']\<close> creates no property.
\<close>

fun export_loop :: "(string \<times> item) list \<Rightarrow> (string \<times> json) list \<Rightarrow> (string \<times> json) list" where
  "export_loop [] data = data"
| "export_loop ((key, it) # rest) data =
     (if key \<noteq> [] \<and> startsWith key storagePrefix
      then (let shortKey = drop (length storagePrefix) key;
                v = (case JSON_parse it of Some v \<Rightarrow> v | None \<Rightarrow> (case it of Raw t \<Rightarrow> JStr t | Json v \<Rightarrow> v))
            in export_loop rest (if shortKey = ''__proto__'' then data else AList.update shortKey v data))
      else export_loop rest data)"

definition exportData :: "StorageManager \<Rightarrow> json" where
  "exportData s =
     (if \<not> storageAvailable s then JObj []
      else if \<not> working (localStorage s) then JObj []
      else JObj (export_loop (entries (localStorage s)) []))"

text \<open>\<^verbatim>\<open>Object.entries\<close> of a value with \<^verbatim>\<open>typeof data === 'object'\<close>.\<close>

fun Object_entries :: "json \<Rightarrow> (string \<times> json) list" where
  "Object_entries (JObj kvs) = kvs"
| "Object_entries (JArr xs) = zip (map string_of_nat [0..<length xs]) xs"
| "Object_entries _ = []"

fun is_object :: "json \<Rightarrow> bool" where
  "is_object (JObj kvs) = True"
| "is_object (JArr xs) = True"
| "is_object _ = False"

definition importData :: "json \<Rightarrow> StorageManager \<Rightarrow> bool \<times> StorageManager" where
  "importData data s =
     (if \<not> storageAvailable s then (False, s)
      else if \<not> truthy data then (False, s)
      else if \<not> is_object data then (False, s)
      else (True, setAll (Object_entries data) s))"

fun remove_all :: "string list \<Rightarrow> medium \<Rightarrow> medium option" where
  "remove_all [] m = Some m"
| "remove_all (key # keys) m =
     (case removeItem key m of None \<Rightarrow> None | Some m' \<Rightarrow> remove_all keys m')"

definition clearAll :: "StorageManager \<Rightarrow> bool \<times> StorageManager" where
  "clearAll s =
     (if \<not> storageAvailable s then (False, s)
      else if \<not> working (localStorage s) then (False, s)
      else (let keysToRemove = filter (\<lambda>key. key \<noteq> [] \<and> startsWith key storagePrefix)
                                  (map fst (entries (localStorage s)))
            in case remove_all keysToRemove (localStorage s) of
                 None \<Rightarrow> (False, s)
               | Some m \<Rightarrow> (True, s\<lparr>localStorage := m\<rparr>)))"

text \<open>\<^verbatim>\<open>exportData()\<close>, then \<^verbatim>\<open>clearAll()\<close>, then \<^verbatim>\<open>importData(exported)\<close>.\<close>

definition export_clear_import :: "StorageManager \<Rightarrow> StorageManager" where
  "export_clear_import s =
     (let exported = exportData s;
          s1 = snd (clearAll s)
      in snd (importData exported s1))"

text \<open>
  The states of the ledger: a manager constructed on a medium this prefix was never written
  to, then any sequence of writes, and a manager constructed anew on the medium an earlier
  one left behind (a page reload). Each ledger operation (\<open>updateStats\<close>,
  \<open>addCompletedWord\<close>, \<open>resetProgress\<close>, ...) changes the store through \<open>setData\<close> only,
  under a key of the ledger's own naming.
\<close>

definition clean :: "medium \<Rightarrow> bool" where
  "clean m = (distinct (map fst (entries m)) \<and>
              list_all (\<lambda>key. \<not> startsWith key storagePrefix) (map fst (entries m)))"

inductive reachable :: "StorageManager \<Rightarrow> bool" where
  reachable_new: "clean m \<Longrightarrow> reachable (StorageManager_new m)"
| reachable_set: "reachable s \<Longrightarrow> key \<noteq> ''__proto__'' \<Longrightarrow> reachable (snd (setData key v s))"
| reachable_reload: "reachable s \<Longrightarrow> reachable (StorageManager_new (localStorage s))"

section \<open>Reading the ledger\<close>

text \<open>A store that takes writes: the probe succeeded and the medium still works.\<close>

definition usable :: "StorageManager \<Rightarrow> bool" where
  "usable s = (storageAvailable s \<and> working (localStorage s))"

text \<open>
  What a caller reads from the objects the ledger returns: \<^verbatim>\<open>getWordWeights()[term]\<close>
  (\<open>None\<close> where the object has no such property) and \<^verbatim>\<open>getMissedWords()[term] || 0\<close>.
\<close>

definition weightFor :: "StorageManager \<Rightarrow> string \<Rightarrow> int option" where
  "weightFor s term = (case getWordWeights s of Some weights \<Rightarrow> map_of weights term | None \<Rightarrow> None)"

definition missCount :: "StorageManager \<Rightarrow> string \<Rightarrow> int" where
  "missCount s term =
     (case getMissedWords s of
        JObj missed \<Rightarrow> (case map_of missed term of Some (JNum n) \<Rightarrow> n | _ \<Rightarrow> 0)
      | _ \<Rightarrow> 0)"

text \<open>A missed-word object as the ledger writes it: distinct words, numeric counts.\<close>

fun is_num :: "json \<Rightarrow> bool" where
  "is_num (JNum n) = True"
| "is_num _ = False"

definition counts_ok :: "(string \<times> json) list \<Rightarrow> bool" where
  "counts_ok missed = (distinct (map fst missed) \<and> list_all (\<lambda>kv. is_num (snd kv)) missed)"

text \<open>
  Reads of a stored tally object: \<^verbatim>\<open>obj[key].correct\<close> and \<^verbatim>\<open>obj[key].total\<close> together,
  \<^verbatim>\<open>obj[key].accuracy\<close>, and \<^verbatim>\<open>obj[key]\<close> of the missed-word object.
\<close>

definition tally :: "json \<Rightarrow> string \<Rightarrow> (int \<times> int) option" where
  "tally obj key =
     (case obj of
        JObj kvs \<Rightarrow>
          (case map_of kvs key of
             Some (JObj fs) \<Rightarrow>
               (case (num_field fs ''correct'', num_field fs ''total'') of
                  (Some c, Some t) \<Rightarrow> Some (c, t)
                | _ \<Rightarrow> None)
           | _ \<Rightarrow> None)
      | _ \<Rightarrow> None)"

definition percent :: "json \<Rightarrow> string \<Rightarrow> int option" where
  "percent obj key =
     (case obj of
        JObj kvs \<Rightarrow> (case map_of kvs key of Some (JObj fs) \<Rightarrow> num_field fs ''accuracy'' | _ \<Rightarrow> None)
      | _ \<Rightarrow> None)"

definition property :: "json \<Rightarrow> string \<Rightarrow> json option" where
  "property obj key = (case obj of JObj kvs \<Rightarrow> map_of kvs key | _ \<Rightarrow> None)"

text \<open>The tally before an answer, with the zero tally the ledger starts a new key from.\<close>

definition tally0 :: "json \<Rightarrow> string \<Rightarrow> int \<times> int" where
  "tally0 obj key = (case tally obj key of Some ct \<Rightarrow> ct | None \<Rightarrow> (0, 0))"

text \<open>
  Stored values as the ledger writes them, with counts that still add exactly: a tally
  object has no entry for the key or a numeric tally of counts from 0 to below \<open>2^53\<close>; the
  missed-word object has no entry for the word or a positive count below \<open>2^53\<close>.
\<close>

definition entry_ok :: "json \<Rightarrow> string \<Rightarrow> bool" where
  "entry_ok obj key =
     (case obj of
        JObj kvs \<Rightarrow>
          (case map_of kvs key of
             None \<Rightarrow> True
           | Some v \<Rightarrow>
               (case tally obj key of
                  Some ct \<Rightarrow> 0 \<le> fst ct \<and> fst ct < 2 ^ 53 \<and> 0 \<le> snd ct \<and> snd ct < 2 ^ 53
                | None \<Rightarrow> False))
      | _ \<Rightarrow> False)"

definition count_ok :: "json \<Rightarrow> string \<Rightarrow> bool" where
  "count_ok obj key =
     (case obj of
        JObj kvs \<Rightarrow>
          (case map_of kvs key of
             None \<Rightarrow> True
           | Some (JNum n) \<Rightarrow> 0 < n \<and> n < 2 ^ 53
           | Some _ \<Rightarrow> False)
      | _ \<Rightarrow> False)"

definition bump :: "bool \<Rightarrow> int \<times> int \<Rightarrow> int \<times> int" where
  "bump correct ct = (if correct then fst ct + 1 else fst ct, snd ct + 1)"

text \<open>
  The rounded percentage \<open>round(100\<cdot>c/t)\<close> in exact arithmetic, ties upwards as
  \<^verbatim>\<open>Math.round\<close> has them: the value the accuracy figures are meant to show.
\<close>

definition round_percent :: "int \<Rightarrow> int \<Rightarrow> int" where
  "round_percent c t = \<lfloor>100 * (of_int c :: rat) / of_int t + 1 / 2\<rfloor>"

text \<open>
  The invariant of reachable stores: distinct keys, and under the prefix only serialised
  values, none of them under the short key \<^verbatim>\<open>__proto__\<close>.
\<close>

definition entry_sound :: "string \<times> item \<Rightarrow> bool" where
  "entry_sound kv =
     (if startsWith (fst kv) storagePrefix
      then (case snd kv of Json v \<Rightarrow> True | Raw t \<Rightarrow> False) \<and>
           drop (length storagePrefix) (fst kv) \<noteq> ''__proto__''
      else True)"

definition store_ok :: "StorageManager \<Rightarrow> bool" where
  "store_ok s = (distinct (map fst (entries (localStorage s))) \<and>
                 list_all entry_sound (entries (localStorage s)))"

text \<open>
  Stores to evaluate on: a first visit, and a ledger in mid-game, with two words answered
  at two difficulties.
\<close>

definition fresh_store :: StorageManager where
  "fresh_store = StorageManager_new \<lparr>working = True, entries = []\<rparr>"

definition midgame_store :: StorageManager where
  "midgame_store =
     snd (setData ''missedWords'' (JObj [(''Happy'', JNum 3), (''Brave'', JNum 1)])
       (snd (setData ''completedWords'' (JArr [JStr ''Happy'', JStr ''Brave''])
         (snd (setData ''difficultyStats''
                 (JObj [(''easy'', JObj [(''correct'', JNum 3), (''total'', JNum 8),
                                         (''accuracy'', JNum 38)]),
                        (''hard'', JObj [(''correct'', JNum 1), (''total'', JNum 1),
                                         (''accuracy'', JNum 100)])])
           (snd (setData ''wordAccuracy''
                   (JObj [(''Happy'', JObj [(''correct'', JNum 2), (''total'', JNum 5)]),
                          (''Brave'', JObj [(''correct'', JNum 2), (''total'', JNum 4)])])
                   fresh_store)))))))"

section \<open>WordManager\<close>

text \<open>
  The difficulties and categories the game offers (\<^verbatim>\<open>availableDifficulties\<close>,
  \<^verbatim>\<open>availableCategories\<close>), and the cache key \<^verbatim>\<open>`${difficulty}_${category}`\<close>.
\<close>

datatype difficulty = Easy | Medium | Hard

datatype category = General | Academic | Business

fun difficulty_name :: "difficulty \<Rightarrow> string" where
  "difficulty_name Easy = ''easy''"
| "difficulty_name Medium = ''medium''"
| "difficulty_name Hard = ''hard''"

fun category_name :: "category \<Rightarrow> string" where
  "category_name General = ''general''"
| "category_name Academic = ''academic''"
| "category_name Business = ''business''"

definition cacheKey :: "difficulty \<Rightarrow> category \<Rightarrow> string" where
  "cacheKey d c = difficulty_name d @ ''_'' @ category_name c"

text \<open>
  A JavaScript value that may be \<^verbatim>\<open>undefined\<close> is a \<open>json option\<close>. A property read on
  a primitive or on an object without that own property gives \<^verbatim>\<open>undefined\<close>.
\<close>

fun truthy_opt :: "json option \<Rightarrow> bool" where
  "truthy_opt None = False"
| "truthy_opt (Some v) = truthy v"

text \<open>
  The per-key cycle: the indices still to serve and the \<^verbatim>\<open>Set\<close> of served words, kept in
  insertion order.
\<close>

record cycle =
  queue :: "nat list"
  visited :: "json option list"

definition Set_add :: "'a \<Rightarrow> 'a list \<Rightarrow> 'a list" where
  "Set_add x xs = (if x \<in> set xs then xs else xs @ [x])"

definition Set_new :: "'a list \<Rightarrow> 'a list" where
  "Set_new xs = fold Set_add xs []"

text \<open>
  What an optional \<^verbatim>\<open>getCycleState\<close> may hand back: \<open>saved_queue\<close> is \<open>None\<close> unless
  \<^verbatim>\<open>saved.queue\<close> is an array, \<open>saved_visited\<close> is \<open>None\<close> when \<^verbatim>\<open>saved.visited\<close> is falsy.
\<close>

record saved_cycle =
  saved_queue :: "nat list option"
  saved_visited :: "json option list option"

text \<open>
  The two optional persistence methods the word manager looks for on its storage object
  (\<^verbatim>\<open>this.storage?.getCycleState\<close>, \<^verbatim>\<open>this.storage?.setCycleState\<close>); \<open>None\<close> is a method
  the object does not have. Class \<^verbatim>\<open>StorageManager\<close> declares neither.
\<close>

record hooks =
  getCycleState :: "(StorageManager \<Rightarrow> string \<Rightarrow> saved_cycle option) option"
  setCycleState :: "(string \<Rightarrow> cycle \<Rightarrow> StorageManager \<Rightarrow> StorageManager) option"

definition StorageManager_hooks :: hooks where
  "StorageManager_hooks = \<lparr>getCycleState = None, setCycleState = None\<rparr>"

record WordManager =
  storage :: StorageManager
  words :: "string \<rightharpoonup> json list"
  usedWords :: "json option list"
  cycleState :: "string \<rightharpoonup> cycle"

definition WordManager_new :: "StorageManager \<Rightarrow> WordManager" where
  "WordManager_new storageManager =
     \<lparr>storage = storageManager, words = Map.empty, usedWords = [], cycleState = Map.empty\<rparr>"

text \<open>
  \<^verbatim>\<open>shuffleArray\<close>. \<open>rnd n\<close> stands for the \<open>n\<close>-th value of \<^verbatim>\<open>Math.random()\<close>: the index
  \<^verbatim>\<open>Math.floor(Math.random() * (i + 1))\<close> can be any of \<open>0, \<dots>, i\<close> and is \<open>rnd n mod (i + 1)\<close>.
  The second component counts the calls made.
\<close>

fun shuffle_loop :: "(nat \<Rightarrow> nat) \<Rightarrow> nat \<Rightarrow> nat \<Rightarrow> 'a list \<Rightarrow> 'a list \<times> nat" where
  "shuffle_loop rnd n 0 shuffled = (shuffled, n)"
| "shuffle_loop rnd n (Suc i') shuffled =
     (let i = Suc i'; j = rnd n mod (i + 1)
      in shuffle_loop rnd (n + 1) i' (shuffled[i := shuffled ! j, j := shuffled ! i]))"

definition shuffleArray :: "(nat \<Rightarrow> nat) \<Rightarrow> nat \<Rightarrow> 'a list \<Rightarrow> 'a list \<times> nat" where
  "shuffleArray rnd n array = shuffle_loop rnd n (length array - 1) array"

definition initCycle ::
  "hooks \<Rightarrow> (nat \<Rightarrow> nat) \<Rightarrow> string \<Rightarrow> json list \<Rightarrow> bool \<Rightarrow> WordManager \<times> nat \<Rightarrow> WordManager \<times> nat" where
  "initCycle h rnd key ws reshuffle st =
     (let (wm, n) = st;
          indices = [0..<length ws];
          (order, n') = (if reshuffle then shuffleArray rnd n indices else (indices, n));
          state = \<lparr>queue = order, visited = []\<rparr>;
          wm1 = wm\<lparr>cycleState := (cycleState wm)(key \<mapsto> state)\<rparr>
      in case setCycleState h of
           None \<Rightarrow> (wm1, n')
         | Some persist \<Rightarrow> (wm1\<lparr>storage := persist key state (storage wm1)\<rparr>, n'))"

definition resetCycle ::
  "hooks \<Rightarrow> (nat \<Rightarrow> nat) \<Rightarrow> difficulty \<Rightarrow> category \<Rightarrow> bool \<Rightarrow> WordManager \<times> nat \<Rightarrow> WordManager \<times> nat" where
  "resetCycle h rnd d c reshuffle st =
     (let key = cacheKey d c;
          ws = (case words (fst st) key of Some ws \<Rightarrow> ws | None \<Rightarrow> [])
      in initCycle h rnd key ws reshuffle st)"

text \<open>
  \<^verbatim>\<open>validateWordData\<close>. \<^verbatim>\<open>every\<close> stops at the first entry that fails; reading a property
  of a \<^verbatim>\<open>null\<close> entry throws (\<open>None\<close>), which \<open>loadWords\<close> catches.
\<close>

definition valid_word :: "json \<Rightarrow> bool option" where
  "valid_word w =
     (if w = JNull then None
      else Some (truthy_opt (property w ''word'') \<and>
                 truthy_opt (property w ''pronunciation'') \<and>
                 truthy_opt (property w ''correct_definition'') \<and>
                 (case property w ''incorrect_options'' of
                    Some (JArr os) \<Rightarrow> 3 \<le> length os
                  | _ \<Rightarrow> False)))"

fun every_valid :: "json list \<Rightarrow> bool option" where
  "every_valid [] = Some True"
| "every_valid (w # ws) =
     (case valid_word w of
        None \<Rightarrow> None
      | Some False \<Rightarrow> Some False
      | Some True \<Rightarrow> every_valid ws)"

definition validateWordData :: "json \<Rightarrow> bool option" where
  "validateWordData data =
     (if \<not> truthy data then Some False
      else (case property data ''words'' of
              Some (JArr ws) \<Rightarrow> every_valid ws
            | _ \<Rightarrow> Some False))"

definition sample_entry :: "string \<Rightarrow> string \<Rightarrow> string \<Rightarrow> string list \<Rightarrow> json" where
  "sample_entry w p cd ios =
     JObj [(''word'', JStr w), (''pronunciation'', JStr p), (''correct_definition'', JStr cd),
           (''incorrect_options'', JArr (map JStr ios))]"

definition sample_easy_general :: "json list" where
  "sample_easy_general =
     [sample_entry ''Happy''
        (''/'' @ [CHR 0xCB, CHR 0x88] @ ''h'' @ [CHR 0xC3, CHR 0xA6] @ ''p.i/'')
        ''Feeling joy or pleasure''
        [''Feeling tired and sleepy'', ''Feeling angry or upset'', ''Feeling confused or lost''],
      sample_entry ''Brave''
        (''/bre'' @ [CHR 0xC9, CHR 0xAA] @ ''v/'')
        ''Showing courage in dangerous situations''
        [''Being very tall and strong'', ''Moving slowly and carefully'',
         ''Eating food very quickly'']]"

definition sampleWords :: "(string \<times> json list) list" where
  "sampleWords =
     [(''easy_general'', sample_easy_general),
      (''medium_general'',
       [sample_entry ''Serendipity''
          (''/'' @ [CHR 0xCB, CHR 0x8C] @ ''ser'' @ [CHR 0xC2, CHR 0xB7] @ [CHR 0xC9, CHR 0x99] @ ''n''
             @ [CHR 0xC2, CHR 0xB7] @ ''d'' @ [CHR 0xC9, CHR 0xAA] @ ''p'' @ [CHR 0xC2, CHR 0xB7]
             @ [CHR 0xC9, CHR 0xAA] @ [CHR 0xC2, CHR 0xB7] @ ''ti/'')
          ''A pleasant surprise; finding something good unexpectedly''
          [''A feeling of deep sadness or melancholy'',
           ''The ability to speak multiple languages fluently'',
           ''A state of complete chaos or disorder'']]),
      (''hard_general'',
       [sample_entry ''Ubiquitous''
          (''/ju'' @ [CHR 0xCB, CHR 0x90] @ [CHR 0xCB, CHR 0x88] @ ''b'' @ [CHR 0xC9, CHR 0xAA]
             @ ''k.w'' @ [CHR 0xC9, CHR 0xAA] @ ''.t'' @ [CHR 0xC9, CHR 0x99] @ ''s/'')
          ''Present everywhere at the same time''
          [''Extremely rare and valuable'', ''Moving in circular motions'',
           ''Related to ancient history'']])]"

definition getSampleWords :: "difficulty \<Rightarrow> category \<Rightarrow> json list" where
  "getSampleWords d c =
     (case map_of sampleWords (cacheKey d c) of
        Some ws \<Rightarrow> ws
      | None \<Rightarrow> sample_easy_general)"

text \<open>
  The outcome of \<^verbatim>\<open>fetch\<close> for a path: \<open>None\<close> is a rejected request; \<open>body\<close> is \<open>None\<close>
  when \<^verbatim>\<open>response.json()\<close> rejects.
\<close>

record response =
  ok :: bool
  status :: nat
  body :: "json option"

definition data_path :: "difficulty \<Rightarrow> category \<Rightarrow> string" where
  "data_path d c = ''./data/'' @ difficulty_name d @ ''/'' @ category_name c @ ''.json''"

definition loadWords ::
  "(string \<Rightarrow> response option) \<Rightarrow> difficulty \<Rightarrow> category \<Rightarrow> WordManager \<Rightarrow> bool \<times> WordManager" where
  "loadWords fetch d c wm =
     (let key = cacheKey d c;
          fallback = (False, wm\<lparr>words := (words wm)(key \<mapsto> getSampleWords d c)\<rparr>)
      in if words wm key \<noteq> None then (True, wm)
         else (case fetch (data_path d c) of
                 None \<Rightarrow> fallback
               | Some resp \<Rightarrow>
                   if \<not> ok resp then fallback
                   else (case body resp of
                           None \<Rightarrow> fallback
                         | Some data \<Rightarrow>
                             (case validateWordData data of
                                Some True \<Rightarrow>
                                  (case property data ''words'' of
                                     Some (JArr ws) \<Rightarrow> (True, wm\<lparr>words := (words wm)(key \<mapsto> ws)\<rparr>)
                                   | _ \<Rightarrow> fallback)
                              | _ \<Rightarrow> fallback))))"

text \<open>
  \<^verbatim>\<open>prepareWordForGame\<close>. Spreading \<^verbatim>\<open>wordObj.incorrect_options\<close> throws unless it is
  iterable (an array, or a string, which spreads into its characters).
\<close>

record prepared =
  word :: "json option"
  pronunciation :: "json option"
  options :: "json option list"
  correctAnswer :: "json option"

fun spread :: "json option \<Rightarrow> json option list option" where
  "spread (Some (JArr xs)) = Some (map Some xs)"
| "spread (Some (JStr s)) = Some (map (\<lambda>ch. Some (JStr [ch])) s)"
| "spread _ = None"

definition prepareWordForGame :: "(nat \<Rightarrow> nat) \<Rightarrow> nat \<Rightarrow> json \<Rightarrow> (prepared \<times> nat) option" where
  "prepareWordForGame rnd n wordObj =
     (case spread (property wordObj ''incorrect_options'') of
        None \<Rightarrow> None
      | Some rest \<Rightarrow>
          (let allOptions = property wordObj ''correct_definition'' # rest;
               (shuffledOptions, n') = shuffleArray rnd n allOptions
           in Some (\<lparr>word = property wordObj ''word'',
                      pronunciation = property wordObj ''pronunciation'',
                      options = shuffledOptions,
                      correctAnswer = property wordObj ''correct_definition''\<rparr>, n')))"

text \<open>What \<open>getNextWord\<close> resolves to.\<close>

record meta =
  meta_difficulty :: difficulty
  meta_category :: category
  remaining :: nat
  total :: nat
  isLastWord :: bool

datatype result =
    Null
  | EndOfCategory string nat nat
  | NextWord prepared meta

text \<open>
  \<^verbatim>\<open>getNextWord\<close>. Every exception inside the \<^verbatim>\<open>try\<close> block ends in \<^verbatim>\<open>return null\<close>, with
  the mutations made before it kept. The arguments of \<open>EndOfCategory\<close> are \<open>message\<close>,
  \<open>total\<close> and \<open>visitedCount\<close>.
\<close>

definition end_message :: "difficulty \<Rightarrow> category \<Rightarrow> nat \<Rightarrow> string" where
  "end_message d c k = ''All '' @ string_of_nat k @ '' words completed for ''
                         @ difficulty_name d @ ''/'' @ category_name c @ ''.''"

definition restoreCycle :: "hooks \<Rightarrow> string \<Rightarrow> WordManager \<Rightarrow> WordManager" where
  "restoreCycle h key wm =
     (case getCycleState h of
        None \<Rightarrow> wm
      | Some restore \<Rightarrow>
          (case restore (storage wm) key of
             None \<Rightarrow> wm
           | Some saved \<Rightarrow>
               (case saved_queue saved of
                  None \<Rightarrow> wm
                | Some q \<Rightarrow>
                    wm\<lparr>cycleState := (cycleState wm)(key \<mapsto>
                         \<lparr>queue = q,
                          visited = Set_new (case saved_visited saved of Some vs \<Rightarrow> vs | None \<Rightarrow> [])\<rparr>)\<rparr>)))"

definition serve ::
  "hooks \<Rightarrow> (nat \<Rightarrow> nat) \<Rightarrow> difficulty \<Rightarrow> category \<Rightarrow> json list \<Rightarrow> cycle \<Rightarrow> WordManager \<times> nat
     \<Rightarrow> result \<times> WordManager \<times> nat" where
  "serve h rnd d c ws state st =
     (let (wm, n) = st; key = cacheKey d c
      in case queue state of
           [] \<Rightarrow> (EndOfCategory (end_message d c (length ws)) (length ws) (length (visited state)),
                  wm, n)
         | nextIdx # rest \<Rightarrow>
             (let wm1 = wm\<lparr>cycleState := (cycleState wm)(key \<mapsto> state\<lparr>queue := rest\<rparr>)\<rparr>
              in if nextIdx < length ws \<and> ws ! nextIdx \<noteq> JNull
                 then
                   (let selectedWord = ws ! nextIdx;
                        state2 = \<lparr>queue = rest,
                                  visited = Set_add (property selectedWord ''word'') (visited state)\<rparr>;
                        wm2 = wm\<lparr>cycleState := (cycleState wm)(key \<mapsto> state2)\<rparr>;
                        wm3 = (case setCycleState h of
                                 None \<Rightarrow> wm2
                               | Some persist \<Rightarrow> wm2\<lparr>storage := persist key state2 (storage wm2)\<rparr>)
                    in case prepareWordForGame rnd n selectedWord of
                         None \<Rightarrow> (Null, wm3, n)
                       | Some (p, n') \<Rightarrow>
                           (NextWord p \<lparr>meta_difficulty = d, meta_category = c,
                                        remaining = length rest, total = length ws,
                                        isLastWord = (length rest = 0)\<rparr>, wm3, n'))
                 else (Null, wm1, n)))"

definition getNextWord ::
  "hooks \<Rightarrow> (string \<Rightarrow> response option) \<Rightarrow> (nat \<Rightarrow> nat) \<Rightarrow> difficulty \<Rightarrow> category
     \<Rightarrow> WordManager \<times> nat \<Rightarrow> result \<times> WordManager \<times> nat" where
  "getNextWord h fetch rnd d c st =
     (let (wm, n) = st; key = cacheKey d c;
          (loaded, wm1) = (if words wm key = None then loadWords fetch d c wm else (True, wm))
      in if \<not> loaded then (Null, wm1, n)
         else (case words wm1 key of
                 None \<Rightarrow> (Null, wm1, n)
               | Some ws \<Rightarrow>
                   if length ws = 0 then (Null, wm1, n)
                   else
                     (let (wm3, n3) =
                            (if cycleState wm1 key = None
                             then (let wm2 = restoreCycle h key wm1
                                   in if cycleState wm2 key = None
                                      then initCycle h rnd key ws True (wm2, n)
                                      else (wm2, n))
                             else (wm1, n))
                      in case cycleState wm3 key of
                           None \<Rightarrow> (Null, wm3, n3)
                         | Some state \<Rightarrow> serve h rnd d c ws state (wm3, n3))))"

definition resetUsedWords :: "WordManager \<Rightarrow> WordManager" where
  "resetUsedWords wm = wm\<lparr>usedWords := []\<rparr>"

text \<open>\<open>calls k\<close>: \<open>k\<close> successive calls of \<open>getNextWord\<close> for one key, with their results.\<close>

fun calls ::
  "hooks \<Rightarrow> (string \<Rightarrow> response option) \<Rightarrow> (nat \<Rightarrow> nat) \<Rightarrow> difficulty \<Rightarrow> category \<Rightarrow> nat
     \<Rightarrow> WordManager \<times> nat \<Rightarrow> result list \<times> WordManager \<times> nat" where
  "calls h fetch rnd d c 0 st = ([], st)"
| "calls h fetch rnd d c (Suc k) st =
     (let (r, st') = getNextWord h fetch rnd d c st;
          (rs, st'') = calls h fetch rnd d c k st'
      in (r # rs, st''))"

text \<open>The word a result serves, if it serves one.\<close>

fun served_word :: "result \<Rightarrow> json option option" where
  "served_word (NextWord p m) = Some (word p)"
| "served_word _ = None"

section \<open>The loader's contract\<close>

text \<open>
  An entry that lacks a non-empty term, pronunciation or correct definition, or has fewer
  than three incorrect options.
\<close>

definition incomplete :: "json \<Rightarrow> bool" where
  "incomplete w =
     (\<not> (truthy_opt (property w ''word'') \<and>
         truthy_opt (property w ''pronunciation'') \<and>
         truthy_opt (property w ''correct_definition'') \<and>
         (case property w ''incorrect_options'' of Some (JArr os) \<Rightarrow> 3 \<le> length os | _ \<Rightarrow> False)))"

text \<open>
  The bank a request delivers, as the loader is specified: none when the request fails, the
  status is not a success, the body is not JSON, or the document has no array \<open>words\<close> or
  one with an incomplete entry.
\<close>

definition fetched_bank :: "response option \<Rightarrow> json list option" where
  "fetched_bank r =
     (case r of
        None \<Rightarrow> None
      | Some resp \<Rightarrow>
          if \<not> ok resp then None
          else (case body resp of
                  None \<Rightarrow> None
                | Some data \<Rightarrow>
                    (case property data ''words'' of
                       Some (JArr ws) \<Rightarrow> if list_ex incomplete ws then None else Some ws
                     | _ \<Rightarrow> None)))"

text \<open>Managers, requests and random sources to evaluate on.\<close>

definition first_manager :: WordManager where
  "first_manager = WordManager_new fresh_store"

definition fetch_404 :: "string \<Rightarrow> response option" where
  "fetch_404 path = Some \<lparr>ok = False, status = 404, body = None\<rparr>"

definition fetch_empty_bank :: "string \<Rightarrow> response option" where
  "fetch_empty_bank path =
     Some \<lparr>ok = True, status = 200,
           body = Some (JObj [(''category'', JStr ''general''), (''difficulty'', JStr ''easy''),
                              (''words'', JArr [])])\<rparr>"

definition fetch_sample :: "string \<Rightarrow> response option" where
  "fetch_sample path =
     Some \<lparr>ok = True, status = 200,
           body = Some (JObj [(''category'', JStr ''general''), (''difficulty'', JStr ''easy''),
                              (''words'', JArr sample_easy_general)])\<rparr>"

definition counting :: "nat \<Rightarrow> nat" where
  "counting n = n"


definition played_out :: "WordManager \<times> nat" where
  "played_out = snd (calls StorageManager_hooks fetch_sample counting Easy General 2 (first_manager, 0))"

section \<open>Degraded and corrupt storage\<close>

lemma setData_unavailable: "\<not> storageAvailable s \<Longrightarrow> setData k v s = (False, s)"
  by (simp add: setData_def)

lemma getData_unavailable: "\<not> storageAvailable s \<Longrightarrow> getData s k d = d"
  by (simp add: getData_def)

lemma setData_available [simp]: "storageAvailable (snd (setData k v s)) = storageAvailable s"
  by (simp add: setData_def split: option.splits)

lemma setAll_available [simp]: "storageAvailable (setAll kvs s) = storageAvailable s"
  by (induction kvs s rule: setAll.induct) simp_all

lemma init_available [simp]: "storageAvailable (init s) = storageAvailable s"
  by (simp add: init_def resetProgress_def)

lemma new_available: "storageAvailable (StorageManager_new m) = fst (checkStorageSupport m)"
  by (simp add: StorageManager_new_def split: prod.splits)

lemma probe_broken: "\<not> working m \<Longrightarrow> checkStorageSupport m = (False, m)"
  by (simp add: checkStorageSupport_def setItem_def)

lemma probe_working: "working m \<Longrightarrow> fst (checkStorageSupport m)"
  by (simp add: checkStorageSupport_def setItem_def getItem_def removeItem_def update_conv')

text \<open>
  C6. When the availability probe fails, the manager built on that medium refuses every
  \<open>setData\<close> (result \<open>false\<close>, nothing written) and answers every \<open>getData\<close> with the
  caller's default, as does any manager whose \<open>storageAvailable\<close> flag is off; and whatever
  the mode, a key whose stored text is not valid JSON reads as the caller's default.
\<close>

theorem C6_degraded_store:
  "(\<not> fst (checkStorageSupport m) \<longrightarrow>
      setData k v (StorageManager_new m) = (False, StorageManager_new m) \<and>
      getData (StorageManager_new m) k d = d) \<and>
   (\<not> storageAvailable s \<longrightarrow> setData k v s = (False, s) \<and> getData s k d = d) \<and>
   (map_of (entries (localStorage s)) (storagePrefix @ k) = Some (Raw t) \<longrightarrow> getData s k d = d)"
  by (simp add: setData_unavailable getData_unavailable new_available getData_def getItem_def)

text \<open>
  C6 on a medium that throws at every access, on a manager whose flag is off, and on a
  working store that holds the text \<^verbatim>\<open>{oops\<close> under \<^verbatim>\<open>level\<close>.
\<close>

theorem C6_degraded_store_witness:
  "\<not> fst (checkStorageSupport \<lparr>working = False, entries = []\<rparr>) \<and>
   setData ''totalScore'' (JNum 5) (StorageManager_new \<lparr>working = False, entries = []\<rparr>)
     = (False, StorageManager_new \<lparr>working = False, entries = []\<rparr>) \<and>
   getData (StorageManager_new \<lparr>working = False, entries = []\<rparr>) ''totalScore'' (JNum 0) = JNum 0 \<and>
   setData ''totalScore'' (JNum 5)
       \<lparr>storageAvailable = False, localStorage = \<lparr>working = True, entries = []\<rparr>\<rparr>
     = (False, \<lparr>storageAvailable = False, localStorage = \<lparr>working = True, entries = []\<rparr>\<rparr>) \<and>
   getData \<lparr>storageAvailable = True,
            localStorage = \<lparr>working = True, entries = [(''wordchallenge_level'', Raw ''{oops'')]\<rparr>\<rparr>
     ''level'' (JNum 1) = JNum 1"
  using C6_degraded_store [of "\<lparr>working = False, entries = []\<rparr>" "''totalScore''" "JNum 5" "JNum 0"
      "\<lparr>storageAvailable = False, localStorage = \<lparr>working = True, entries = []\<rparr>\<rparr>" "''x''"]
    C6_degraded_store [of "\<lparr>working = False, entries = []\<rparr>" "''level''" "JNum 5" "JNum 1"
      "\<lparr>storageAvailable = True,
        localStorage = \<lparr>working = True, entries = [(''wordchallenge_level'', Raw ''{oops'')]\<rparr>\<rparr>"
      "''{oops''"]
  by (simp add: probe_broken storagePrefix_def)

section \<open>Rounding of doubles\<close>

text \<open>
  Rounding to the nearest double changes a positive number by at most \<open>2\<^sup>-\<^sup>5\<^sup>3\<close> of its
  value. Hence \<^verbatim>\<open>Math.round((c / t) * 100)\<close> is the exactly rounded percentage whenever
  \<open>100\<cdot>c/t\<close> is not half-way between two integers, for every count below \<open>2\<^sup>4\<^sup>0\<close>.
\<close>

lemma rne_err: "\<bar>of_int (rne x) - x\<bar> \<le> 1 / 2"
proof -
  have "of_int \<lfloor>x\<rfloor> \<le> x" "x < of_int \<lfloor>x\<rfloor> + 1" by linarith+
  then show ?thesis
    by (auto simp: rne_def Let_def)
qed

lemma ilog2_bounds:
  assumes "0 < x"
  shows "2 powi (ilog2 x) \<le> x \<and> x < 2 powi (ilog2 x + 1)"
proof -
  obtain p q where pq: "quotient_of x = (p, q)" by (cases "quotient_of x")
  have q: "0 < q" using pq by (rule quotient_of_denom_pos)
  have x: "x = of_int p / of_int q" using pq by (rule quotient_of_div)
  have p: "0 < p" using assms q unfolding x by (simp add: zero_less_divide_iff)
  define k where "k = bitlen p - bitlen q"
  have bp: "2 ^ nat (bitlen p - 1) \<le> p" "p < 2 ^ nat (bitlen p)" using bitlen_bounds[OF p] by auto
  have bq: "2 ^ nat (bitlen q - 1) \<le> q" "q < 2 ^ nat (bitlen q)" using bitlen_bounds[OF q] by auto
  have bp1: "1 \<le> bitlen p" using p by (auto simp: bitlen_alt_def)
  have bq1: "1 \<le> bitlen q" using q by (auto simp: bitlen_alt_def)
  have P1: "(2::rat) powi (bitlen p - 1) \<le> of_int p"
  proof -
    have "(of_int (2 ^ nat (bitlen p - 1)) :: rat) \<le> of_int p" using bp(1) by (simp only: of_int_le_iff)
    then show ?thesis using bp1 by (simp add: power_int_def)
  qed
  have P2: "of_int p < (2::rat) powi (bitlen p)"
  proof -
    have "(of_int p :: rat) < of_int (2 ^ nat (bitlen p))" using bp(2) by (simp only: of_int_less_iff)
    then show ?thesis using bp1 by (simp add: power_int_def)
  qed
  have Q1: "(2::rat) powi (bitlen q - 1) \<le> of_int q"
  proof -
    have "(of_int (2 ^ nat (bitlen q - 1)) :: rat) \<le> of_int q" using bq(1) by (simp only: of_int_le_iff)
    then show ?thesis using bq1 by (simp add: power_int_def)
  qed
  have Q2: "of_int q < (2::rat) powi (bitlen q)"
  proof -
    have "(of_int q :: rat) < of_int (2 ^ nat (bitlen q))" using bq(2) by (simp only: of_int_less_iff)
    then show ?thesis using bq1 by (simp add: power_int_def)
  qed
  have qpos: "(0::rat) < of_int q" using q by simp
  have up: "x < 2 powi (k + 1)"
  proof -
    have "of_int p < (2::rat) powi (k + 1) * 2 powi (bitlen q - 1)"
      using P2 by (simp add: k_def flip: power_int_add)
    also have "\<dots> \<le> 2 powi (k + 1) * of_int q"
      using Q1 by (simp add: mult_left_mono)
    finally show ?thesis unfolding x using qpos by (simp add: pos_divide_less_eq)
  qed
  have lo: "2 powi (k - 1) \<le> x"
  proof -
    have "(2::rat) powi (k - 1) * of_int q \<le> 2 powi (k - 1) * 2 powi (bitlen q)"
      using Q2 by (simp add: mult_left_mono)
    also have "\<dots> = 2 powi (bitlen p - 1)" by (simp add: k_def flip: power_int_add)
    also have "\<dots> \<le> of_int p" by (rule P1)
    finally show ?thesis unfolding x using qpos by (simp add: pos_le_divide_eq)
  qed
  have il: "ilog2 x = (if 2 powi k \<le> x then k else k - 1)"
    by (simp add: ilog2_def pq k_def Let_def)
  show ?thesis using up lo by (auto simp: il)
qed

lemma fl_err:
  assumes "0 < x"
  shows "\<bar>fl x - x\<bar> \<le> x / 2 ^ 53"
proof -
  define e where "e = ilog2 x - 52"
  define m where "m = x / 2 powi e"
  have pe: "(0::rat) < 2 powi e" by simp
  have flx: "fl x = of_int (rne m) * 2 powi e"
    using assms by (simp add: fl_def e_def m_def Let_def)
  have xm: "x = m * 2 powi e" by (simp add: m_def)
  have "\<bar>fl x - x\<bar> = \<bar>of_int (rne m) - m\<bar> * 2 powi e"
    unfolding flx by (subst xm) (simp add: abs_mult flip: left_diff_distrib)
  also have "\<dots> \<le> (1 / 2) * 2 powi e"
    using rne_err[of m] pe by (intro mult_right_mono) auto
  also have "\<dots> = 2 powi (ilog2 x) / 2 ^ 53"
    by (simp add: e_def power_int_diff)
  also have "\<dots> \<le> x / 2 ^ 53"
    using ilog2_bounds[OF assms] by (simp add: divide_right_mono)
  finally show ?thesis .
qed

lemma fl_pos: "0 < x \<Longrightarrow> 0 < fl x"
proof -
  assume x: "0 < x"
  have "x / 2 ^ 53 < x" using x by (simp add: field_simps)
  with fl_err[OF x] show ?thesis by linarith
qed

lemma fl_zero [simp]: "fl 0 = 0"
  by (simp add: fl_def)

lemma js_percent_exact:
  assumes c: "0 \<le> c" "c \<le> t" and t: "0 < t" "t < 2 ^ 40"
    and nontie: "(200 * c + t) mod (2 * t) \<noteq> 0"
  shows "js_percent c t = (200 * c + t) div (2 * t)"
proof (cases "c = 0")
  case True
  have "\<lfloor>(1 / 2 :: rat)\<rfloor> = 0" by (rule floor_unique) simp_all
  then show ?thesis using True t by (simp add: js_percent_def Math_round_def)
next
  case False
  define x :: rat where "x = of_int c / of_int t"
  define a where "a = fl x"
  define b where "b = fl (a * 100)"
  define n where "n = (200 * c + t) div (2 * t)"
  define r where "r = (200 * c + t) mod (2 * t)"
  have tr: "(0::rat) < of_int t" using t by simp
  have x0: "0 < x" using False c t by (simp add: x_def)
  have x1: "x \<le> 1" using c t by (simp add: x_def)
  have a0: "0 < a" unfolding a_def using x0 by (rule fl_pos)
  have ea: "\<bar>a - x\<bar> \<le> x / 2 ^ 53" unfolding a_def using x0 by (rule fl_err)
  have eb: "\<bar>b - a * 100\<bar> \<le> a * 100 / 2 ^ 53" unfolding b_def using a0 by (intro fl_err) simp
  have "x / 2 ^ 53 \<le> 1" using x0 x1 by (simp add: field_simps)
  then have a2: "a \<le> 2" using ea x1 by linarith
  have ea': "a - x \<le> x / 2 ^ 53" "x - a \<le> x / 2 ^ 53" using ea by linarith+
  have eb': "b - a * 100 \<le> a * 100 / 2 ^ 53" "a * 100 - b \<le> a * 100 / 2 ^ 53" using eb by linarith+
  have err: "b - 100 * x \<le> 300 / 2 ^ 53" "100 * x - b \<le> 300 / 2 ^ 53"
    using ea' eb' a2 x1 by simp_all
  have "0 \<le> r" "r < 2 * t" using t by (simp_all add: r_def)
  then have r1: "1 \<le> r" "r \<le> 2 * t - 1" using nontie by (simp_all add: r_def)
  have dm: "200 * c + t = n * (2 * t) + r" unfolding n_def r_def by (rule div_mult_mod_eq [symmetric])
  have "(of_int (200 * c + t) :: rat) = of_int (n * (2 * t) + r)" by (simp only: dm)
  then have z: "100 * x + 1 / 2 = of_int n + of_int r / (2 * of_int t)"
    using tr by (simp add: x_def field_simps)
  have tb: "(of_int t :: rat) < 2 ^ 40"
  proof -
    have "(of_int t :: rat) < of_int (2 ^ 40)" using t(2) by (simp only: of_int_less_iff)
    then show ?thesis by simp
  qed
  have small: "(300::rat) / 2 ^ 53 < 1 / (2 * of_int t)"
    using tb tr by (simp add: field_simps)
  have rl: "1 / (2 * of_int t) \<le> (of_int r :: rat) / (2 * of_int t)"
    using r1(1) tr by (simp add: divide_right_mono)
  have ru: "(of_int r :: rat) / (2 * of_int t) \<le> 1 - 1 / (2 * of_int t)"
  proof -
    have "(of_int r :: rat) \<le> of_int (2 * t - 1)" using r1(2) by (simp only: of_int_le_iff)
    then show ?thesis using tr by (simp add: field_simps)
  qed
  have "of_int n \<le> b + 1 / 2" "b + 1 / 2 < of_int n + 1"
    using err z small rl ru by linarith+
  then have "\<lfloor>b + 1 / 2\<rfloor> = n" by (simp add: floor_unique)
  then show ?thesis by (simp add: js_percent_def Math_round_def n_def b_def a_def x_def)
qed

lemma round_percent_div: "0 < t \<Longrightarrow> round_percent c t = (200 * c + t) div (2 * t)"
proof -
  assume t: "0 < t"
  then have "100 * (of_int c :: rat) / of_int t + 1 / 2 = of_int (200 * c + t) / of_int (2 * t)"
    by (simp add: field_simps)
  then show ?thesis
    unfolding round_percent_def by (simp only: floor_divide_of_int_eq)
qed

text \<open>Integers up to \<open>2\<^sup>5\<^sup>3\<close> are doubles, so counts below it add exactly.\<close>

lemma rne_of_int [simp]: "rne (of_int z) = z"
  by (simp add: rne_def)

lemma fl_of_int:
  assumes "0 < k" "k \<le> 2 ^ 53"
  shows "fl (of_int k) = of_int k"
proof -
  define x :: rat where "x = of_int k"
  define L where "L = ilog2 x"
  have x0: "0 < x" using assms(1) by (simp add: x_def)
  have b: "2 powi L \<le> x" "x < 2 powi (L + 1)" using ilog2_bounds[OF x0] by (simp_all add: L_def)
  have xu: "x \<le> 2 powi 53"
  proof -
    have "(of_int k :: rat) \<le> of_int (2 ^ 53)" using assms(2) by (simp only: of_int_le_iff)
    then show ?thesis by (simp add: x_def)
  qed
  have L53: "L \<le> 53"
  proof (rule ccontr)
    assume "\<not> L \<le> 53"
    then have "54 \<le> L" by simp
    then have "(2::rat) powi 54 \<le> 2 powi L" by (intro power_int_increasing) simp_all
    with b(1) xu show False by simp
  qed
  have flx: "fl x = of_int (rne (x / 2 powi (L - 52))) * 2 powi (L - 52)"
    using x0 by (simp add: fl_def L_def Let_def)
  show ?thesis
  proof (cases "L \<le> 52")
    case True
    have "x / 2 powi (L - 52) = x * 2 powi (52 - L)"
      by (simp add: power_int_diff)
    also have "\<dots> = of_int (k * 2 ^ nat (52 - L))"
      using True by (simp add: x_def power_int_def)
    finally have "x / 2 powi (L - 52) = of_int (k * 2 ^ nat (52 - L))" .
    then have "fl x = of_int (k * 2 ^ nat (52 - L)) * 2 powi (L - 52)"
      by (simp only: flx rne_of_int)
    also have "\<dots> = x * (2 powi (52 - L) * 2 powi (L - 52))"
      using True by (simp add: x_def power_int_def)
    also have "\<dots> = x" by (simp flip: power_int_add)
    finally show ?thesis by (simp add: x_def)
  next
    case False
    with L53 have L: "L = 53" by simp
    have "x = 2 powi 53" using b(1) xu by (simp add: L)
    then have x: "x = of_int (2 ^ 53)" by simp
    have "x / 2 powi (L - 52) = of_int (2 ^ 52)" by (simp add: L x)
    then have "fl x = of_int (2 ^ 52) * 2 powi (L - 52)" by (simp only: flx rne_of_int)
    also have "\<dots> = x" by (simp add: L x)
    finally show ?thesis by (simp add: x_def)
  qed
qed

lemma js_add_one: "0 \<le> n \<Longrightarrow> n < 2 ^ 53 \<Longrightarrow> js_add n 1 = n + 1"
proof -
  assume n: "0 \<le> n" "n < 2 ^ 53"
  have "fl (of_int (n + 1)) = of_int (n + 1)" using n by (intro fl_of_int) simp_all
  then show ?thesis by (simp add: js_add_def)
qed

text \<open>At \<open>2\<^sup>5\<^sup>3\<close> an increment is lost: the sum rounds back to the count.\<close>

lemma js_add_saturates: "js_add (2 ^ 53) 1 = 2 ^ 53"
  by code_simp


section \<open>Average accuracy\<close>

lemma getAverageAccuracy_no_attempts:
  "getData s ''totalWords'' (JNum 0) = JNum 0 \<Longrightarrow> getAverageAccuracy s = Some 0"
  by (simp add: getAverageAccuracy_def)

lemma getAverageAccuracy_7_of_9:
  "getAverageAccuracy (snd (setData ''correctAnswers'' (JNum 7)
                        (snd (setData ''totalWords'' (JNum 9) fresh_store)))) = Some 78"
  by code_simp

lemma getAverageAccuracy_off_ties:
  assumes "getData s ''totalWords'' (JNum 0) = JNum t" "getData s ''correctAnswers'' (JNum 0) = JNum c"
    and "0 \<le> c" "c \<le> t" "0 < t" "t < 2 ^ 40" "(200 * c + t) mod (2 * t) \<noteq> 0"
  shows "getAverageAccuracy s = Some (round_percent c t)"
  using assms js_percent_exact[of c t]
  by (simp add: getAverageAccuracy_def round_percent_div)

text \<open>
  C7. The average accuracy is meant to be \<open>0\<close> without attempts and \<open>round(100\<cdot>c/t)\<close>
  otherwise, and it is so off the ties (the three lemmas above, with 7 of 9 giving 78). On a
  tie the quotient \<open>c / t\<close> is rounded to a double before it is scaled: with 23 correct
  answers of 40 attempts, \<open>(23 / 40) * 100\<close> is the double just below \<open>57.5\<close> and
  \<open>getAverageAccuracy\<close> returns 57, where the rounded percentage is 58.
\<close>

theorem C7_tie_rounds_down:
  "getAverageAccuracy (snd (setData ''correctAnswers'' (JNum 23)
                        (snd (setData ''totalWords'' (JNum 40) fresh_store)))) = Some 57 \<and>
   round_percent 23 40 = 58"
  by code_simp

section \<open>Ledger operations\<close>

lemma usable_setData [simp]: "usable (snd (setData k v s)) = usable s"
  by (simp add: usable_def setData_def setItem_def)

lemma getData_setData:
  "usable s \<Longrightarrow> getData (snd (setData k v s)) k' d = (if k' = k then v else getData s k' d)"
  by (simp add: usable_def setData_def setItem_def getData_def getItem_def update_conv'
      JSON_stringify_def)

lemma weights_loop_spec:
  assumes "counts_ok missed" "term \<noteq> ''__proto__''"
  shows "\<exists>ws. weights_loop missed acc = Some ws \<and>
           map_of ws term = (case map_of missed term of
                               Some (JNum n) \<Rightarrow> Some (min (n + 1) 5)
                             | _ \<Rightarrow> map_of acc term)"
  using assms
proof (induction missed acc rule: weights_loop.induct)
  case (1 weights)
  then show ?case by simp
next
  case (2 w missCount rest weights)
  from "2.prems" have ok: "counts_ok rest" and nin: "w \<notin> fst ` set rest"
    by (simp_all add: counts_ok_def)
  have absent: "w = term \<Longrightarrow> map_of rest term = None"
    using nin by (simp add: map_of_eq_None_iff)
  from "2.IH"[OF ok "2.prems"(2)] obtain ws where
    ws: "weights_loop rest (if w = ''__proto__'' then weights
                        else AList.update w (min (missCount + 1) 5) weights) = Some ws"
        "map_of ws term = (case map_of rest term of
                               Some (JNum n) \<Rightarrow> Some (min (n + 1) 5)
                             | _ \<Rightarrow> map_of (if w = ''__proto__'' then weights
                        else AList.update w (min (missCount + 1) 5) weights) term)"
    by blast
  show ?case
  proof (cases "w = term")
    case True
    then show ?thesis using ws absent "2.prems"(2) by (simp add: update_conv')
  next
    case False
    then show ?thesis using ws by (auto simp: update_conv' split: option.splits json.splits)
  qed
qed (simp_all add: counts_ok_def)

lemma getData_unusable: "\<not> usable s \<Longrightarrow> getData s k d = d"
  by (auto simp: usable_def getData_def getItem_def)

lemma setData_unusable: "\<not> usable s \<Longrightarrow> snd (setData k v s) = s"
  by (auto simp: usable_def setData_def setItem_def)

lemma num_field_update:
  "num_field (AList.update f (JNum n) fs) g = (if g = f then Some n else num_field fs g)"
  by (simp add: num_field_def update_conv')

lemma own_name: "w \<notin> set Object_prototype_keys \<Longrightarrow> inherited w = None"
  by (auto simp: inherited_def Object_prototype_keys_def)

lemma assign_own: "w \<notin> set Object_prototype_keys \<Longrightarrow> assign w v kvs = AList.update w v kvs"
  by (auto simp: assign_def Object_prototype_keys_def)

lemma property_update:
  "property (JObj (AList.update w v kvs)) k = (if k = w then Some v else property (JObj kvs) k)"
  by (simp add: property_def update_conv')

lemma property_delete:
  "property (JObj (AList.delete w kvs)) k = (if k = w then None else property (JObj kvs) k)"
  by (simp add: property_def delete_conv')

lemma tally_cases:
  assumes "entry_ok (JObj kvs) key"
  obtains (absent) "map_of kvs key = None" "tally0 (JObj kvs) key = (0, 0)"
  | (present) fs c t where "map_of kvs key = Some (JObj fs)" "num_field fs ''correct'' = Some c"
      "num_field fs ''total'' = Some t" "tally0 (JObj kvs) key = (c, t)"
      "0 \<le> c" "c < 2 ^ 53" "0 \<le> t" "t < 2 ^ 53"
  using assms
  by (auto simp: entry_ok_def tally_def tally0_def split: option.splits json.splits)

lemma updateWordAccuracy_spec:
  assumes "usable s" "w \<notin> set Object_prototype_keys" "entry_ok (getWordAccuracy s) w"
  shows "\<exists>s'. updateWordAccuracy w correct s = Some s' \<and> usable s' \<and>
           tally (getWordAccuracy s') w = Some (bump correct (tally0 (getWordAccuracy s) w)) \<and>
           (\<forall>k. k \<noteq> w \<longrightarrow> property (getWordAccuracy s') k = property (getWordAccuracy s) k) \<and>
           (\<forall>k d. k \<noteq> ''wordAccuracy'' \<longrightarrow> getData s' k d = getData s k d)"
proof -
  from assms(3) obtain kvs where kvs: "getWordAccuracy s = JObj kvs"
    by (cases "getWordAccuracy s") (simp_all add: entry_ok_def)
  from assms(3) have "entry_ok (JObj kvs) w" by (simp add: kvs)
  then show ?thesis
  proof (cases rule: tally_cases)
    case absent
    have one: "js_add 0 1 = 1" using js_add_one[of 0] by simp
    show ?thesis using assms(1) absent
      by (simp add: updateWordAccuracy_def kvs Let_def num_field_def getData_setData
          own_name[OF assms(2)] one property_update
          getWordAccuracy_def[of "snd _"] tally_def update_conv' bump_def)
  next
    case (present fs c t)
    have inc: "js_add c 1 = c + 1" "js_add t 1 = t + 1"
      using present(5-8) by (simp_all add: js_add_one)
    have tr: "truthy (JObj fs)" by simp
    show ?thesis using assms(1) present(1-4)
      by (simp add: updateWordAccuracy_def kvs Let_def getData_setData num_field_update inc
          property_update
          getWordAccuracy_def[of "snd _"] tally_def update_conv' bump_def)
  qed
qed

lemma updateDifficultyAccuracy_spec:
  assumes "usable s" "difficulty \<notin> set Object_prototype_keys"
    "entry_ok (getDifficultyStats s) difficulty"
  shows "\<exists>s'. updateDifficultyAccuracy difficulty correct s = Some s' \<and> usable s' \<and>
           tally (getDifficultyStats s') difficulty
             = Some (bump correct (tally0 (getDifficultyStats s) difficulty)) \<and>
           percent (getDifficultyStats s') difficulty
             = Some (js_percent (fst (bump correct (tally0 (getDifficultyStats s) difficulty)))
                                (snd (bump correct (tally0 (getDifficultyStats s) difficulty)))) \<and>
           (\<forall>k. k \<noteq> difficulty \<longrightarrow>
                property (getDifficultyStats s') k = property (getDifficultyStats s) k) \<and>
           (\<forall>k d. k \<noteq> ''difficultyStats'' \<longrightarrow> getData s' k d = getData s k d)"
proof -
  from assms(3) obtain kvs where kvs: "getDifficultyStats s = JObj kvs"
    by (cases "getDifficultyStats s") (simp_all add: entry_ok_def)
  from assms(3) have "entry_ok (JObj kvs) difficulty" by (simp add: kvs)
  then show ?thesis
  proof (cases rule: tally_cases)
    case absent
    have one: "js_add 0 1 = 1" using js_add_one[of 0] by simp
    show ?thesis using assms(1) absent
      by (simp add: updateDifficultyAccuracy_def kvs Let_def num_field_def getData_setData
          own_name[OF assms(2)] one property_update
          getDifficultyStats_def[of "snd _"] tally_def percent_def update_conv' bump_def)
  next
    case (present fs c t)
    have inc: "js_add c 1 = c + 1" "js_add t 1 = t + 1"
      using present(5-8) by (simp_all add: js_add_one)
    have pos: "0 < t + 1" using present(7) by simp
    show ?thesis using assms(1) present(1-4) pos
      by (simp add: updateDifficultyAccuracy_def kvs Let_def getData_setData num_field_update inc
          property_update
          getDifficultyStats_def[of "snd _"] tally_def percent_def update_conv' bump_def)
  qed
qed

lemma addCompletedWord_spec:
  assumes "usable s" "getCompletedWords s = JArr completed"
  shows "\<exists>s'. addCompletedWord w s = Some s' \<and> usable s' \<and>
           getCompletedWords s'
             = JArr (if JStr w \<in> set completed then completed else completed @ [JStr w]) \<and>
           (\<forall>k d. k \<noteq> ''completedWords'' \<longrightarrow> getData s' k d = getData s k d)"
  using assms
  by (simp add: addCompletedWord_def getData_setData getCompletedWords_def[of "snd _"])

lemma removeMissedWord_spec:
  assumes "usable s" "w \<notin> set Object_prototype_keys" "count_ok (getMissedWords s) w"
  shows "\<exists>s'. removeMissedWord w s = Some s' \<and> usable s' \<and>
           property (getMissedWords s') w = None \<and>
           (\<forall>k. k \<noteq> w \<longrightarrow> property (getMissedWords s') k = property (getMissedWords s) k) \<and>
           (\<forall>k d. k \<noteq> ''missedWords'' \<longrightarrow> getData s' k d = getData s k d)"
proof -
  from assms(3) obtain kvs where kvs: "getMissedWords s = JObj kvs"
    by (cases "getMissedWords s") (simp_all add: count_ok_def)
  show ?thesis
  proof (cases "map_of kvs w")
    case None
    then show ?thesis using assms(1)
      by (simp add: removeMissedWord_def kvs property_def own_name[OF assms(2)])
  next
    case (Some v)
    with assms(3) obtain n where v: "v = JNum n" "0 < n"
      by (cases v) (simp_all add: count_ok_def kvs)
    show ?thesis using assms(1) Some v
      by (simp add: removeMissedWord_def kvs property_delete getData_setData
          getMissedWords_def[of "snd _"])
  qed
qed

lemma addMissedWord_spec:
  assumes "usable s" "w \<notin> set Object_prototype_keys" "count_ok (getMissedWords s) w"
  shows "\<exists>s'. addMissedWord w s = Some s' \<and> usable s' \<and>
           property (getMissedWords s') w = Some (JNum (missCount s w + 1)) \<and>
           (\<forall>k. k \<noteq> w \<longrightarrow> property (getMissedWords s') k = property (getMissedWords s) k) \<and>
           (\<forall>k d. k \<noteq> ''missedWords'' \<longrightarrow> getData s' k d = getData s k d)"
proof -
  from assms(3) obtain kvs where kvs: "getMissedWords s = JObj kvs"
    by (cases "getMissedWords s") (simp_all add: count_ok_def)
  show ?thesis
  proof (cases "map_of kvs w")
    case None
    then show ?thesis using assms(1)
      by (simp add: addMissedWord_def kvs missCount_def getData_setData property_update
          own_name[OF assms(2)] assign_own[OF assms(2)] getMissedWords_def[of "snd _"])
  next
    case (Some v)
    with assms(3) obtain n where v: "v = JNum n" "0 < n" "n < 2 ^ 53"
      by (cases v) (simp_all add: count_ok_def kvs)
    have inc: "js_add n 1 = n + 1" using v(2,3) by (simp add: js_add_one)
    show ?thesis using assms(1) Some v(1,2)
      by (simp add: addMissedWord_def kvs missCount_def getData_setData property_update inc
          assign_own[OF assms(2)] getMissedWords_def[of "snd _"])
  qed
qed

section \<open>Selection weights\<close>

text \<open>
  C3, as the code has it. For a missed-word object as the ledger writes it, the weight
  reported for a word with miss count \<open>n\<close> is \<open>min (n + 1) 5\<close>, so never more than 5; a
  word without an entry in the missed words has no weight in the returned object.
\<close>

theorem C3_weight_of_missed_terms:
  assumes "getMissedWords s = JObj missed" "counts_ok missed" "term \<noteq> ''__proto__''"
  shows "weightFor s term =
           (case map_of missed term of Some (JNum n) \<Rightarrow> Some (min (n + 1) 5) | _ \<Rightarrow> None)"
  using weights_loop_spec[OF assms(2,3), of "[]"]
  by (auto simp: weightFor_def getWordWeights_def assms(1) split: option.splits json.splits)

text \<open>
  C3 as stated fails for a word that was never missed: on a first visit the query reports
  no weight for \<^verbatim>\<open>Happy\<close>, not the weight 1 that \<open>min (missCount + 1) 5\<close> would be.
\<close>

theorem C3_never_missed_counterexample:
  "missCount fresh_store ''Happy'' = 0 \<and> weightFor fresh_store ''Happy'' = None \<and>
   weightFor fresh_store ''Happy'' \<noteq> Some (min (missCount fresh_store ''Happy'' + 1) 5)"
  by code_simp

text \<open>
  C3 evaluated: three misses weigh 4, ten misses weigh 5, and a word that is not in the
  missed words has no weight.
\<close>

theorem C3_weight_of_missed_terms_witness:
  "getMissedWords (snd (setData ''missedWords'' (JObj [(''Happy'', JNum 3), (''Brave'', JNum 10)]) fresh_store))
     = JObj [(''Happy'', JNum 3), (''Brave'', JNum 10)] \<and>
   counts_ok [(''Happy'', JNum 3), (''Brave'', JNum 10)] \<and>
   weightFor (snd (setData ''missedWords'' (JObj [(''Happy'', JNum 3), (''Brave'', JNum 10)]) fresh_store)) ''Happy'' = Some 4 \<and>
   weightFor (snd (setData ''missedWords'' (JObj [(''Happy'', JNum 3), (''Brave'', JNum 10)]) fresh_store)) ''Brave'' = Some 5 \<and>
   weightFor (snd (setData ''missedWords'' (JObj [(''Happy'', JNum 3), (''Brave'', JNum 10)]) fresh_store)) ''Calm'' = None"
proof -
  let ?m = "[(''Happy'', JNum 3), (''Brave'', JNum 10)]"
  let ?s = "snd (setData ''missedWords'' (JObj ?m) fresh_store)"
  have h1: "getMissedWords ?s = JObj ?m" by code_simp
  have h2: "counts_ok ?m" by code_simp
  show ?thesis
    using C3_weight_of_missed_terms[OF h1 h2, of "''Happy''"]
      C3_weight_of_missed_terms[OF h1 h2, of "''Brave''"]
      C3_weight_of_missed_terms[OF h1 h2, of "''Calm''"] h1 h2
    by simp
qed

section \<open>Recording an answer\<close>

text \<open>
  What \<open>trackWordProgress\<close> records on a store that takes writes, for a word and a
  difficulty that are no names of \<^verbatim>\<open>Object.prototype\<close> and maps in the shape the ledger
  writes them, with counts below \<open>2\<^sup>5\<^sup>3\<close>. The word's \<open>total\<close> grows by one, and its
  \<open>correct\<close> when the answer is correct; the same holds for the difficulty, whose
  \<open>accuracy\<close> becomes \<^verbatim>\<open>Math.round((correct / total) * 100)\<close> of the new tally; the word is
  appended to the completed words unless it is there already; the word leaves the missed
  words when the answer is correct, or else its miss count grows by one, counting from 0.
  Every other word, every other difficulty and every other key of the ledger reads as
  before.
\<close>

lemma trackWordProgress_records:
  assumes "usable s"
    and "w \<notin> set Object_prototype_keys" "difficulty \<notin> set Object_prototype_keys"
    and "entry_ok (getWordAccuracy s) w" "entry_ok (getDifficultyStats s) difficulty"
    and "getCompletedWords s = JArr completed" "count_ok (getMissedWords s) w"
  shows "\<exists>s'. trackWordProgress w difficulty isCorrect s = Some s' \<and>
           tally (getWordAccuracy s') w
             = Some (bump isCorrect (tally0 (getWordAccuracy s) w)) \<and>
           (\<forall>k. k \<noteq> w \<longrightarrow> property (getWordAccuracy s') k = property (getWordAccuracy s) k) \<and>
           tally (getDifficultyStats s') difficulty
             = Some (bump isCorrect (tally0 (getDifficultyStats s) difficulty)) \<and>
           percent (getDifficultyStats s') difficulty
             = Some (js_percent (fst (bump isCorrect (tally0 (getDifficultyStats s) difficulty)))
                                (snd (bump isCorrect (tally0 (getDifficultyStats s) difficulty)))) \<and>
           (\<forall>k. k \<noteq> difficulty \<longrightarrow>
                property (getDifficultyStats s') k = property (getDifficultyStats s) k) \<and>
           getCompletedWords s'
             = JArr (if JStr w \<in> set completed then completed else completed @ [JStr w]) \<and>
           property (getMissedWords s') w
             = (if isCorrect then None else Some (JNum (missCount s w + 1))) \<and>
           (\<forall>k. k \<noteq> w \<longrightarrow> property (getMissedWords s') k = property (getMissedWords s) k) \<and>
           (\<forall>k d. k \<noteq> ''wordAccuracy'' \<and> k \<noteq> ''difficultyStats'' \<and> k \<noteq> ''completedWords'' \<and>
                  k \<noteq> ''missedWords'' \<longrightarrow> getData s' k d = getData s k d)"
proof -
  from updateWordAccuracy_spec[OF assms(1,2,4), of isCorrect] obtain s1 where
    s1: "updateWordAccuracy w isCorrect s = Some s1" "usable s1"
      "tally (getWordAccuracy s1) w = Some (bump isCorrect (tally0 (getWordAccuracy s) w))"
      "\<And>k. k \<noteq> w \<Longrightarrow> property (getWordAccuracy s1) k = property (getWordAccuracy s) k"
      "\<And>k d. k \<noteq> ''wordAccuracy'' \<Longrightarrow> getData s1 k d = getData s k d"
    by blast
  have d1: "getDifficultyStats s1 = getDifficultyStats s"
    by (simp add: getDifficultyStats_def s1(5))
  from updateDifficultyAccuracy_spec[OF s1(2) assms(3), of isCorrect] assms(5) obtain s2 where
    s2: "updateDifficultyAccuracy difficulty isCorrect s1 = Some s2" "usable s2"
      "tally (getDifficultyStats s2) difficulty
         = Some (bump isCorrect (tally0 (getDifficultyStats s) difficulty))"
      "percent (getDifficultyStats s2) difficulty
         = Some (js_percent (fst (bump isCorrect (tally0 (getDifficultyStats s) difficulty)))
                            (snd (bump isCorrect (tally0 (getDifficultyStats s) difficulty))))"
      "\<And>k. k \<noteq> difficulty \<Longrightarrow>
            property (getDifficultyStats s2) k = property (getDifficultyStats s) k"
      "\<And>k d. k \<noteq> ''difficultyStats'' \<Longrightarrow> getData s2 k d = getData s1 k d"
    unfolding d1 by blast
  have c2: "getCompletedWords s2 = JArr completed"
    using assms(6) by (simp add: getCompletedWords_def s2(6) s1(5))
  from addCompletedWord_spec[OF s2(2) c2, of w] obtain s3 where
    s3: "addCompletedWord w s2 = Some s3" "usable s3"
      "getCompletedWords s3
         = JArr (if JStr w \<in> set completed then completed else completed @ [JStr w])"
      "\<And>k d. k \<noteq> ''completedWords'' \<Longrightarrow> getData s3 k d = getData s2 k d"
    by blast
  have m3: "getMissedWords s3 = getMissedWords s"
    by (simp add: getMissedWords_def s3(4) s2(6) s1(5))
  have ok3: "count_ok (getMissedWords s3) w" using assms(7) by (simp add: m3)
  have mc3: "missCount s3 w = missCount s w" by (simp add: missCount_def m3)
  obtain s4 where
    s4: "(if isCorrect then removeMissedWord w s3 else addMissedWord w s3) = Some s4"
      "property (getMissedWords s4) w
         = (if isCorrect then None else Some (JNum (missCount s w + 1)))"
      "\<And>k. k \<noteq> w \<Longrightarrow> property (getMissedWords s4) k = property (getMissedWords s) k"
      "\<And>k d. k \<noteq> ''missedWords'' \<Longrightarrow> getData s4 k d = getData s3 k d"
  proof (cases isCorrect)
    case True
    from removeMissedWord_spec[OF s3(2) assms(2) ok3] obtain s' where
      "removeMissedWord w s3 = Some s'" "property (getMissedWords s') w = None"
      "\<And>k. k \<noteq> w \<Longrightarrow> property (getMissedWords s') k = property (getMissedWords s3) k"
      "\<And>k d. k \<noteq> ''missedWords'' \<Longrightarrow> getData s' k d = getData s3 k d"
      by blast
    with True that show ?thesis by (simp add: m3)
  next
    case False
    from addMissedWord_spec[OF s3(2) assms(2) ok3] obtain s' where
      "addMissedWord w s3 = Some s'"
      "property (getMissedWords s') w = Some (JNum (missCount s3 w + 1))"
      "\<And>k. k \<noteq> w \<Longrightarrow> property (getMissedWords s') k = property (getMissedWords s3) k"
      "\<And>k d. k \<noteq> ''missedWords'' \<Longrightarrow> getData s' k d = getData s3 k d"
      by blast
    with False that show ?thesis by (simp add: mc3 m3)
  qed
  have run: "trackWordProgress w difficulty isCorrect s = Some s4"
    by (simp add: trackWordProgress_def s1(1) s2(1) s3(1) s4(1))
  have wa: "getWordAccuracy s4 = getWordAccuracy s1"
    by (simp add: getWordAccuracy_def s4(4) s3(4) s2(6))
  have ds: "getDifficultyStats s4 = getDifficultyStats s2"
    by (simp add: getDifficultyStats_def s4(4) s3(4))
  have cw: "getCompletedWords s4 = getCompletedWords s3"
    by (simp add: getCompletedWords_def s4(4))
  have rest: "getData s4 k d = getData s k d"
    if "k \<noteq> ''wordAccuracy''" "k \<noteq> ''difficultyStats''" "k \<noteq> ''completedWords''"
      "k \<noteq> ''missedWords''" for k d
    using that by (simp add: s4(4) s3(4) s2(6) s1(5))
  show ?thesis
    using run s1(3,4) s2(3,4,5) s3(3) s4(2,3) rest by (simp add: wa ds cw)
qed

text \<open>
  Whenever \<open>100\<cdot>correct/total\<close> of the new tally is not half-way between two integers, the
  stored accuracy is the rounded percentage.
\<close>

lemma trackWordProgress_percent:
  assumes "usable s"
    and "w \<notin> set Object_prototype_keys" "difficulty \<notin> set Object_prototype_keys"
    and "entry_ok (getWordAccuracy s) w" "entry_ok (getDifficultyStats s) difficulty"
    and "getCompletedWords s = JArr completed" "count_ok (getMissedWords s) w"
    and "bump isCorrect (tally0 (getDifficultyStats s) difficulty) = (c, t)"
    and "c \<le> t" "t < 2 ^ 40" "(200 * c + t) mod (2 * t) \<noteq> 0"
  shows "\<exists>s'. trackWordProgress w difficulty isCorrect s = Some s' \<and>
           percent (getDifficultyStats s') difficulty = Some (round_percent c t)"
proof -
  from assms(5) obtain kvs where kvs: "getDifficultyStats s = JObj kvs"
    by (cases "getDifficultyStats s") (simp_all add: entry_ok_def)
  from assms(5) have "entry_ok (JObj kvs) difficulty" by (simp add: kvs)
  then have ct: "0 \<le> c" "0 < t"
    using assms(8) by (cases rule: tally_cases; auto simp: kvs bump_def split: if_splits)+
  from trackWordProgress_records[OF assms(1-7), of isCorrect] obtain s' where
    s': "trackWordProgress w difficulty isCorrect s = Some s'"
      "percent (getDifficultyStats s') difficulty = Some (js_percent c t)"
    by (auto simp: assms(8))
  show ?thesis
    using s' js_percent_exact[OF ct(1) assms(9) ct(2) assms(10,11)] ct(2)
    by (simp add: round_percent_div)
qed

text \<open>A store that takes no writes is left as it was, whatever the answer.\<close>

lemma trackWordProgress_unusable:
  assumes "\<not> usable s"
  shows "trackWordProgress w difficulty isCorrect s = Some s"
proof -
  have one: "js_add 0 1 = 1" using js_add_one[of 0] by simp
  have a: "updateWordAccuracy w isCorrect s = Some s"
    using assms
    by (simp add: updateWordAccuracy_def getWordAccuracy_def getData_unusable setData_unusable
        Let_def num_field_def split: option.splits)
  have b: "updateDifficultyAccuracy difficulty isCorrect s = Some s"
    using assms
    by (simp add: updateDifficultyAccuracy_def getDifficultyStats_def getData_unusable
        setData_unusable Let_def num_field_def split: option.splits)
  have c: "addCompletedWord w s = Some s"
    using assms
    by (simp add: addCompletedWord_def getCompletedWords_def getData_unusable setData_unusable)
  have d: "removeMissedWord w s = Some s"
    using assms
    by (simp add: removeMissedWord_def getMissedWords_def getData_unusable setData_unusable
        split: option.splits)
  have e: "addMissedWord w s = Some s"
    using assms
    by (simp add: addMissedWord_def getMissedWords_def getData_unusable setData_unusable
        split: option.splits)
  show ?thesis by (simp add: trackWordProgress_def a b c d e)
qed

text \<open>
  Evaluated in mid-game. A correct answer for \<^verbatim>\<open>Happy\<close> raises its tally from 2 of 5 to
  3 of 6 and the tally of \<^verbatim>\<open>easy\<close>, removes \<^verbatim>\<open>Happy\<close> from the missed words and does not
  add it to the completed words a second time; an incorrect answer for the new word
  \<^verbatim>\<open>Calm\<close> starts its tally and its miss count. The other entries stay.
\<close>

lemma midgame_correct:
  "map_option (\<lambda>s'. (getWordAccuracy s', getDifficultyStats s', getCompletedWords s', getMissedWords s'))
     (trackWordProgress ''Happy'' ''easy'' True midgame_store)
   = Some (JObj [(''Happy'', JObj [(''correct'', JNum 3), (''total'', JNum 6)]),
                 (''Brave'', JObj [(''correct'', JNum 2), (''total'', JNum 4)])],
           JObj [(''easy'', JObj [(''correct'', JNum 4), (''total'', JNum 9), (''accuracy'', JNum 44)]),
                 (''hard'', JObj [(''correct'', JNum 1), (''total'', JNum 1), (''accuracy'', JNum 100)])],
           JArr [JStr ''Happy'', JStr ''Brave''],
           JObj [(''Brave'', JNum 1)])"
  by code_simp

lemma midgame_incorrect:
  "map_option (\<lambda>s'. (getWordAccuracy s', getDifficultyStats s', getCompletedWords s', getMissedWords s'))
     (trackWordProgress ''Calm'' ''hard'' False midgame_store)
   = Some (JObj [(''Happy'', JObj [(''correct'', JNum 2), (''total'', JNum 5)]),
                 (''Brave'', JObj [(''correct'', JNum 2), (''total'', JNum 4)]),
                 (''Calm'', JObj [(''correct'', JNum 0), (''total'', JNum 1)])],
           JObj [(''easy'', JObj [(''correct'', JNum 3), (''total'', JNum 8), (''accuracy'', JNum 38)]),
                 (''hard'', JObj [(''correct'', JNum 1), (''total'', JNum 2), (''accuracy'', JNum 50)])],
           JArr [JStr ''Happy'', JStr ''Brave'', JStr ''Calm''],
           JObj [(''Happy'', JNum 3), (''Brave'', JNum 1), (''Calm'', JNum 1)])"
  by code_simp

text \<open>
  Under a name a plain object inherits, no tally is kept for the word, and a miss stores
  a text instead of a count.
\<close>

lemma trackWordProgress_inherited_name:
  "map_option (\<lambda>s'. (getWordAccuracy s', getCompletedWords s', getMissedWords s'))
     (trackWordProgress ''constructor'' ''easy'' False fresh_store)
   = Some (JObj [], JArr [JStr ''constructor''],
           JObj [(''constructor'', JStr ''function Object() { [native code] }1'')])"
  by code_simp

text \<open>At a miss count of \<open>2\<^sup>5\<^sup>3\<close> a further miss is not counted.\<close>

lemma addMissedWord_saturates:
  "map_option getMissedWords
     (addMissedWord ''Happy'' (snd (setData ''missedWords'' (JObj [(''Happy'', JNum (2 ^ 53))]) fresh_store)))
   = Some (JObj [(''Happy'', JNum (2 ^ 53))])"
  by code_simp

text \<open>
  C4. Recording an answer is meant to leave \<open>round(100\<cdot>correct/total)\<close> as the accuracy of
  the difficulty. On a first visit, 22 correct answers, 17 incorrect ones and one more
  correct answer at difficulty \<^verbatim>\<open>easy\<close> make the tally 23 of 40, which is 57.5 percent and
  rounds to 58. The ledger stores 57: \<^verbatim>\<open>Math.round((correct / total) * 100)\<close> rounds the
  quotient \<open>23/40\<close> to a double first, and a hundred times that double lies just below
  57.5. It is the expression of \<open>getAverageAccuracy\<close>, with the same outcome.
\<close>

theorem C4_difficulty_accuracy_tie:
  "map_option (\<lambda>s'. (tally (getDifficultyStats s') ''easy'', percent (getDifficultyStats s') ''easy''))
     (answers ''Brave'' ''easy'' (replicate 22 True @ replicate 17 False @ [True]) fresh_store)
     = Some (Some (23, 40), Some 57) \<and>
   round_percent 23 40 = 58"
  by code_simp

section \<open>Export, clear, import\<close>

lemma startsWith_prefix [simp]: "startsWith (storagePrefix @ k) storagePrefix"
  by (simp add: startsWith_def)

lemma startsWith_split: "startsWith key p \<Longrightarrow> key = p @ drop (length p) key"
  by (metis append_take_drop_id startsWith_def)

lemma prefixed_nonempty: "startsWith key storagePrefix \<Longrightarrow> key \<noteq> []"
  by (auto simp: startsWith_def storagePrefix_def)

lemma export_loop_lookup:
  assumes "distinct (map fst es)" "list_all entry_sound es"
  shows "map_of (export_loop es data) k =
           (case map_of es (storagePrefix @ k) of
              Some (Json v) \<Rightarrow> Some v
            | _ \<Rightarrow> map_of data k)"
  using assms
proof (induction es data rule: export_loop.induct)
  case (1 data)
  then show ?case by simp
next
  case (2 key it rest data)
  from "2.prems" have d: "distinct (map fst rest)" and nin: "key \<notin> fst ` set rest"
    and ok: "list_all entry_sound rest" and snd: "entry_sound (key, it)"
    by simp_all
  have absent: "map_of rest key = None" using nin by (simp add: map_of_eq_None_iff)
  show ?case
  proof (cases "startsWith key storagePrefix")
    case False
    then have ne: "key \<noteq> storagePrefix @ k" by auto
    from False have nc: "\<not> (key \<noteq> [] \<and> startsWith key storagePrefix)" by simp
    from "2.IH"(2)[OF nc d ok] show ?thesis using ne False by simp
  next
    case True
    define shortKey where "shortKey = drop (length storagePrefix) key"
    have key: "key = storagePrefix @ shortKey"
      unfolding shortKey_def using True by (rule startsWith_split)
    have ne: "key \<noteq> []" using True by (rule prefixed_nonempty)
    from snd True obtain v where it: "it = Json v" and np: "shortKey \<noteq> ''__proto__''"
      by (cases it) (simp_all add: entry_sound_def shortKey_def)
    have step: "export_loop ((key, it) # rest) data = export_loop rest (AList.update shortKey v data)"
      using True ne np by (simp add: Let_def it shortKey_def)
    have V: "v = (case JSON_parse it of None \<Rightarrow> (case it of Raw t \<Rightarrow> JStr t | Json v \<Rightarrow> v)
                                       | Some v \<Rightarrow> v)"
      by (simp add: it)
    have upd: "(if shortKey = ''__proto__'' then data else AList.update shortKey v data)
                 = AList.update shortKey v data"
      using np by simp
    note IH = "2.IH"(1)[OF conjI[OF ne True] shortKey_def V d ok, unfolded upd]
    have L: "map_of (export_loop ((key, it) # rest) data) k =
               (case map_of rest (storagePrefix @ k) of
                  Some (Json v) \<Rightarrow> Some v
                | _ \<Rightarrow> map_of (AList.update shortKey v data) k)"
      by (simp only: step IH)
    have R: "map_of ((key, it) # rest) (storagePrefix @ k)
               = (if k = shortKey then Some (Json v) else map_of rest (storagePrefix @ k))"
      by (subst key) (simp add: it)
    have absent': "map_of rest (storagePrefix @ shortKey) = None"
      using absent key by simp
    show ?thesis
      unfolding L R by (simp add: update_conv' absent' split: option.splits item.splits)
  qed
qed

lemma export_loop_distinct:
  "distinct (map fst data) \<Longrightarrow> distinct (map fst (export_loop es data))"
  by (induction es data rule: export_loop.induct) (simp_all add: Let_def distinct_update)

lemma setAll_usable [simp]: "usable (setAll kvs s) = usable s"
  by (induction kvs s rule: setAll.induct) simp_all

lemma getData_setAll:
  "usable s \<Longrightarrow> distinct (map fst kvs) \<Longrightarrow>
   getData (setAll kvs s) k d = (case map_of kvs k of Some v \<Rightarrow> v | None \<Rightarrow> getData s k d)"
proof (induction kvs s rule: setAll.induct)
  case (1 s)
  then show ?case by simp
next
  case (2 k' v kvs s)
  from "2.prems" have "map_of kvs k' = None" by (simp add: map_of_eq_None_iff)
  with 2 show ?case by (simp add: getData_setData split: option.splits)
qed

lemma remove_all_spec:
  "working m \<Longrightarrow>
   \<exists>m'. remove_all keys m = Some m' \<and> working m' \<and>
        (\<forall>key. map_of (entries m') key = (if key \<in> set keys then None else map_of (entries m) key))"
proof (induction keys arbitrary: m)
  case Nil
  then show ?case by simp
next
  case (Cons key keys)
  let ?m1 = "m\<lparr>entries := AList.delete key (entries m)\<rparr>"
  have w1: "working ?m1" using Cons.prems by simp
  from Cons.IH[OF w1] obtain m' where
    m': "remove_all keys ?m1 = Some m'" "working m'"
      "\<And>k. map_of (entries m') k = (if k \<in> set keys then None else map_of (entries ?m1) k)"
    by blast
  have "remove_all (key # keys) m = Some m'"
    using Cons.prems m'(1) by (simp add: removeItem_def)
  moreover have "map_of (entries m') k = (if k \<in> set (key # keys) then None else map_of (entries m) k)" for k
    by (simp add: m'(3) delete_conv')
  ultimately show ?case using m'(2) by blast
qed

lemma clearAll_spec:
  assumes "usable s"
  shows "usable (snd (clearAll s)) \<and> getData (snd (clearAll s)) k d = d"
proof -
  let ?ks = "filter (\<lambda>key. key \<noteq> [] \<and> startsWith key storagePrefix) (map fst (entries (localStorage s)))"
  from assms have w: "working (localStorage s)" and a: "storageAvailable s" by (simp_all add: usable_def)
  from remove_all_spec[OF w, of ?ks] obtain m' where
    m': "remove_all ?ks (localStorage s) = Some m'" "working m'"
      "\<And>key. map_of (entries m') key = (if key \<in> set ?ks then None else map_of (entries (localStorage s)) key)"
    by blast
  have c: "clearAll s = (True, s\<lparr>localStorage := m'\<rparr>)"
    using a w m'(1) by (simp add: clearAll_def Let_def)
  have ne: "storagePrefix @ k \<noteq> []" by (simp add: storagePrefix_def)
  have "map_of (entries m') (storagePrefix @ k) = None"
  proof (cases "storagePrefix @ k \<in> fst ` set (entries (localStorage s))")
    case True
    then have "storagePrefix @ k \<in> set ?ks" using ne by simp
    then show ?thesis by (simp only: m'(3) if_True)
  next
    case False
    then have "map_of (entries (localStorage s)) (storagePrefix @ k) = None"
      by (simp add: map_of_eq_None_iff)
    then show ?thesis by (simp add: m'(3))
  qed
  then show ?thesis using a m'(2) by (simp add: c usable_def getData_def getItem_def)
qed

lemma export_clear_import_reads:
  assumes "store_ok s"
  shows "getData (export_clear_import s) k d = getData s k d"
proof (cases "usable s")
  case False
  then have "export_clear_import s = s"
    by (auto simp: usable_def export_clear_import_def exportData_def clearAll_def importData_def Let_def)
  then show ?thesis by simp
next
  case True
  let ?es = "entries (localStorage s)"
  let ?kvs = "export_loop ?es []"
  from assms have d: "distinct (map fst ?es)" and ok: "list_all entry_sound ?es"
    by (simp_all add: store_ok_def)
  have ex: "exportData s = JObj ?kvs" using True by (simp add: exportData_def usable_def)
  have u1: "usable (snd (clearAll s))" using clearAll_spec[OF True] by simp
  then have a1: "storageAvailable (snd (clearAll s))" by (simp add: usable_def)
  have run: "export_clear_import s = setAll ?kvs (snd (clearAll s))"
    using a1 by (simp add: export_clear_import_def ex importData_def Let_def)
  have dk: "distinct (map fst ?kvs)" by (rule export_loop_distinct) simp
  have look: "map_of ?kvs k = (case map_of ?es (storagePrefix @ k) of Some (Json v) \<Rightarrow> Some v | _ \<Rightarrow> None)"
    using export_loop_lookup[OF d ok, of "[]" k] by (simp split: option.splits item.splits)
  have sound: "map_of ?es (storagePrefix @ k) = Some it \<Longrightarrow> \<exists>v. it = Json v" for it
  proof -
    assume "map_of ?es (storagePrefix @ k) = Some it"
    then have "(storagePrefix @ k, it) \<in> set ?es" by (rule map_of_SomeD)
    with ok have "entry_sound (storagePrefix @ k, it)" by (simp add: list_all_iff)
    then show ?thesis by (cases it) (simp_all add: entry_sound_def)
  qed
  have "getData (export_clear_import s) k d = (case map_of ?kvs k of Some v \<Rightarrow> v | None \<Rightarrow> d)"
    unfolding run using getData_setAll[OF u1 dk] clearAll_spec[OF True]
    by (simp split: option.splits)
  also have "\<dots> = getData s k d"
    using True sound
    by (auto simp: look getData_def getItem_def usable_def split: option.splits item.splits)
  finally show ?thesis .
qed

lemma list_all_update:
  "list_all P es \<Longrightarrow> P (k, v) \<Longrightarrow> list_all P (AList.update k v es)"
  by (induction es) auto

lemma list_all_delete: "list_all P es \<Longrightarrow> list_all P (AList.delete k es)"
  by (induction es) auto

lemma store_ok_setData:
  assumes "store_ok s" "key \<noteq> ''__proto__''"
  shows "store_ok (snd (setData key v s))"
proof -
  have "entry_sound (storagePrefix @ key, Json v)"
    using assms(2) by (simp add: entry_sound_def)
  then show ?thesis
    using assms(1)
    by (simp add: store_ok_def setData_def setItem_def JSON_stringify_def distinct_update
        list_all_update split: option.splits)
qed

lemma store_ok_setAll:
  "store_ok s \<Longrightarrow> ''__proto__'' \<notin> fst ` set kvs \<Longrightarrow> store_ok (setAll kvs s)"
proof (induction kvs s rule: setAll.induct)
  case (1 s)
  then show ?case by simp
next
  case (2 k v kvs s)
  from "2.prems" have "k \<noteq> ''__proto__''" by auto
  with "2.prems"(1) have "store_ok (snd (setData k v s))" by (rule store_ok_setData)
  with 2 show ?case by simp
qed

lemma store_ok_init: "store_ok s \<Longrightarrow> store_ok (init s)"
  by (simp add: init_def resetProgress_def store_ok_setData store_ok_setAll defaultData_def)

lemma clean_sound: "clean m \<Longrightarrow> list_all entry_sound (entries m)"
  by (auto simp: clean_def entry_sound_def list_all_iff)

lemma store_ok_new:
  assumes "distinct (map fst (entries m))" "list_all entry_sound (entries m)"
  shows "store_ok (StorageManager_new m)"
proof -
  have probe: "entry_sound (''storage_test'', Raw ''test'')"
    by (simp add: entry_sound_def startsWith_def storagePrefix_def)
  have "store_ok \<lparr>storageAvailable = fst (checkStorageSupport m),
                  localStorage = snd (checkStorageSupport m)\<rparr>"
    using assms probe
    by (simp add: store_ok_def checkStorageSupport_def setItem_def getItem_def removeItem_def
        distinct_delete distinct_update list_all_delete list_all_update)
  then have "store_ok (init \<lparr>storageAvailable = fst (checkStorageSupport m),
                  localStorage = snd (checkStorageSupport m)\<rparr>)"
    by (rule store_ok_init)
  then show ?thesis
    by (simp add: StorageManager_new_def case_prod_beta)
qed

lemma reachable_store_ok: "reachable s \<Longrightarrow> store_ok s"
proof (induction rule: reachable.induct)
  case (reachable_new m)
  then show ?case by (simp add: store_ok_new clean_sound clean_def)
next
  case (reachable_set s key v)
  then show ?case by (simp add: store_ok_setData)
next
  case (reachable_reload s)
  then have "distinct (map fst (entries (localStorage s)))"
    "list_all entry_sound (entries (localStorage s))"
    by (simp_all add: store_ok_def)
  then show ?case by (rule store_ok_new)
qed

text \<open>
  The ledger's operations stay within the reachable stores.
\<close>

lemma reachable_fresh: "reachable fresh_store"
  unfolding fresh_store_def by (rule reachable_new) (simp add: clean_def)

lemma reachable_addCompletedWord:
  "reachable s \<Longrightarrow> addCompletedWord w s = Some s' \<Longrightarrow> reachable s'"
  by (auto simp: addCompletedWord_def split: json.splits if_splits intro: reachable_set)

lemma reachable_addMissedWord:
  "reachable s \<Longrightarrow> addMissedWord w s = Some s' \<Longrightarrow> reachable s'"
  by (auto simp: addMissedWord_def split: json.splits if_splits option.splits intro: reachable_set)

lemma reachable_removeMissedWord:
  "reachable s \<Longrightarrow> removeMissedWord w s = Some s' \<Longrightarrow> reachable s'"
  by (auto simp: removeMissedWord_def split: json.splits if_splits option.splits intro: reachable_set)

lemma reachable_updateWordAccuracy:
  "reachable s \<Longrightarrow> updateWordAccuracy w c s = Some s' \<Longrightarrow> reachable s'"
  by (auto simp: updateWordAccuracy_def Let_def split: json.splits if_splits option.splits
      intro: reachable_set)

lemma reachable_updateDifficultyAccuracy:
  "reachable s \<Longrightarrow> updateDifficultyAccuracy dif c s = Some s' \<Longrightarrow> reachable s'"
  by (auto simp: updateDifficultyAccuracy_def Let_def split: json.splits if_splits option.splits
      intro: reachable_set)

lemma reachable_trackWordProgress:
  assumes "reachable s" "trackWordProgress w dif c s = Some s'"
  shows "reachable s'"
proof -
  from assms(2) obtain s1 s2 s3 where
    steps: "updateWordAccuracy w c s = Some s1" "updateDifficultyAccuracy dif c s1 = Some s2"
      "addCompletedWord w s2 = Some s3"
      "(if c then removeMissedWord w s3 else addMissedWord w s3) = Some s'"
    by (auto simp: trackWordProgress_def split: option.splits)
  have "reachable s3"
    using assms(1) steps(1,2,3)
    by (blast intro: reachable_updateWordAccuracy reachable_updateDifficultyAccuracy
        reachable_addCompletedWord)
  then show ?thesis
    using steps(4) by (cases c) (auto intro: reachable_removeMissedWord reachable_addMissedWord)
qed

lemma reachable_resetProgress: "reachable s \<Longrightarrow> reachable (resetProgress s)"
  by (simp add: resetProgress_def defaultData_def reachable_set)

text \<open>
  C8. For every reachable store, \<open>exportData\<close>, then \<open>clearAll\<close>, then \<open>importData\<close> of
  the exported object gives a store in which every key reads as before the clear: the
  scalar counters, the completed words, the missed words, the word accuracy, the
  difficulty statistics and the average accuracy.
\<close>

theorem C8_export_clear_import:
  assumes "reachable s"
  shows "(\<forall>k d. getData (export_clear_import s) k d = getData s k d) \<and>
         getCompletedWords (export_clear_import s) = getCompletedWords s \<and>
         getMissedWords (export_clear_import s) = getMissedWords s \<and>
         getWordAccuracy (export_clear_import s) = getWordAccuracy s \<and>
         getDifficultyStats (export_clear_import s) = getDifficultyStats s \<and>
         getAverageAccuracy (export_clear_import s) = getAverageAccuracy s"
  using export_clear_import_reads[OF reachable_store_ok[OF assms]]
  by (simp add: getCompletedWords_def getMissedWords_def getWordAccuracy_def
      getDifficultyStats_def getAverageAccuracy_def)

text \<open>
  C8 evaluated on a first-visit store with a score of 15.
\<close>

theorem C8_export_clear_import_witness:
  "reachable (snd (setData ''totalScore'' (JNum 15) fresh_store)) \<and>
   getData (snd (setData ''totalScore'' (JNum 15) fresh_store)) ''totalScore'' (JNum 0) = JNum 15 \<and>
   getData (export_clear_import (snd (setData ''totalScore'' (JNum 15) fresh_store)))
     ''totalScore'' (JNum 0) = JNum 15 \<and>
   getCompletedWords (export_clear_import (snd (setData ''totalScore'' (JNum 15) fresh_store)))
     = JArr []"
proof -
  let ?s = "snd (setData ''totalScore'' (JNum 15) fresh_store)"
  have r: "reachable ?s" by (rule reachable_set[OF reachable_fresh]) simp
  have v: "getData ?s ''totalScore'' (JNum 0) = JNum 15" by code_simp
  have c: "getCompletedWords ?s = JArr []" by code_simp
  from C8_export_clear_import[OF r] r v c show ?thesis by simp
qed

section \<open>Loading a word bank\<close>

lemma valid_word_iff: "valid_word w = Some True \<longleftrightarrow> \<not> incomplete w"
  by (cases w) (auto simp: valid_word_def incomplete_def property_def split: option.splits json.splits)

lemma every_valid_iff: "every_valid ws = Some True \<longleftrightarrow> (\<forall>w\<in>set ws. \<not> incomplete w)"
proof (induction ws)
  case Nil
  then show ?case by simp
next
  case (Cons w ws)
  show ?case
  proof (cases "valid_word w")
    case None
    then have "valid_word w \<noteq> Some True" by simp
    then have "incomplete w" by (simp add: valid_word_iff)
    then show ?thesis using None by simp
  next
    case (Some b)
    then show ?thesis using Cons.IH valid_word_iff[of w] by (cases b) simp_all
  qed
qed

lemma property_truthy: "property data k = Some v \<Longrightarrow> truthy data"
  by (cases data) (simp_all add: property_def)

lemma validateWordData_iff:
  "validateWordData data = Some True \<longleftrightarrow>
     (\<exists>ws. property data ''words'' = Some (JArr ws) \<and> \<not> list_ex incomplete ws)"
proof (cases "property data ''words''")
  case None
  then show ?thesis by (simp add: validateWordData_def)
next
  case (Some v)
  then have t: "truthy data" by (rule property_truthy)
  show ?thesis using Some t
    by (cases v) (simp_all add: validateWordData_def every_valid_iff list_ex_iff)
qed

lemma getSampleWords_nonempty: "1 \<le> length (getSampleWords d c)"
  by (cases d; cases c)
     (simp_all add: getSampleWords_def sampleWords_def cacheKey_def sample_easy_general_def)

lemma loadWords_fetched:
  assumes "words wm (cacheKey d c) = None"
  shows "loadWords fetch d c wm =
           (case fetched_bank (fetch (data_path d c)) of
              Some ws \<Rightarrow> (True, wm\<lparr>words := (words wm)(cacheKey d c \<mapsto> ws)\<rparr>)
            | None \<Rightarrow> (False, wm\<lparr>words := (words wm)(cacheKey d c \<mapsto> getSampleWords d c)\<rparr>))"
proof (cases "fetch (data_path d c)")
  case None
  then show ?thesis using assms by (simp add: loadWords_def fetched_bank_def Let_def)
next
  case (Some resp)
  show ?thesis
  proof (cases "ok resp \<and> body resp \<noteq> None")
    case False
    then show ?thesis using assms Some
      by (auto simp: loadWords_def fetched_bank_def Let_def)
  next
    case True
    then obtain data where data: "ok resp" "body resp = Some data" by auto
    show ?thesis
    proof (cases "validateWordData data = Some True")
      case True
      then obtain ws where "property data ''words'' = Some (JArr ws)" "\<not> list_ex incomplete ws"
        unfolding validateWordData_iff by blast
      then show ?thesis using assms Some data True
        by (simp add: loadWords_def fetched_bank_def Let_def)
    next
      case False
      then have nb: "fetched_bank (Some resp) = None"
        using data unfolding validateWordData_iff
        by (auto simp: fetched_bank_def split: option.splits json.splits)
      from False have "(case validateWordData data of
                                Some True \<Rightarrow>
                                  (case property data ''words'' of
                                     Some (JArr ws) \<Rightarrow> (True, wm\<lparr>words := (words wm)(cacheKey d c \<mapsto> ws)\<rparr>)
                                   | _ \<Rightarrow> (False, wm\<lparr>words := (words wm)(cacheKey d c \<mapsto> getSampleWords d c)\<rparr>))
                              | _ \<Rightarrow> (False, wm\<lparr>words := (words wm)(cacheKey d c \<mapsto> getSampleWords d c)\<rparr>))
                  = (False, wm\<lparr>words := (words wm)(cacheKey d c \<mapsto> getSampleWords d c)\<rparr>)"
        by (auto split: option.splits bool.splits)
      then show ?thesis using assms Some data nb
        by (simp add: loadWords_def Let_def)
    qed
  qed
qed

lemma sample_complete: "\<not> list_ex incomplete (getSampleWords d c)"
  by (cases d; cases c)
     (simp_all add: getSampleWords_def sampleWords_def cacheKey_def sample_easy_general_def
        sample_entry_def incomplete_def property_def)

lemma fetched_bank_complete: "fetched_bank r = Some ws \<Longrightarrow> \<not> list_ex incomplete ws"
  by (auto simp: fetched_bank_def split: option.splits json.splits if_splits)

lemma loadWords_bank_complete:
  assumes "words wm (cacheKey d c) = None"
    and "words (snd (loadWords fetch d c wm)) (cacheKey d c) = Some ws"
  shows "\<not> list_ex incomplete ws"
proof (cases "fetched_bank (fetch (data_path d c))")
  case None
  then have "ws = getSampleWords d c" using assms by (simp add: loadWords_fetched)
  then show ?thesis by (simp add: sample_complete)
next
  case (Some bank)
  then have "ws = bank" using assms by (simp add: loadWords_fetched)
  then show ?thesis using Some by (simp add: fetched_bank_complete)
qed

text \<open>
  C5. For every difficulty and category whose bank is not cached yet, \<open>loadWords\<close>
  stores the fetched bank and returns \<open>true\<close> when the request succeeds and every entry is
  complete; in every other case (failed request, error status, unreadable body, no array of
  words, an entry lacking a non-empty term, pronunciation or correct definition or having
  fewer than three incorrect options) it stores the built-in sample bank for that key,
  which has at least one entry, and returns \<open>false\<close>. The validation itself rejects every
  document with an incomplete entry.
\<close>

theorem C5_loadWords:
  assumes "words wm (cacheKey d c) = None"
  shows "loadWords fetch d c wm =
           (case fetched_bank (fetch (data_path d c)) of
              Some ws \<Rightarrow> (True, wm\<lparr>words := (words wm)(cacheKey d c \<mapsto> ws)\<rparr>)
            | None \<Rightarrow> (False, wm\<lparr>words := (words wm)(cacheKey d c \<mapsto> getSampleWords d c)\<rparr>)) \<and>
         1 \<le> length (getSampleWords d c) \<and>
         (\<forall>data ws. property data ''words'' = Some (JArr ws) \<and> list_ex incomplete ws \<longrightarrow>
                    validateWordData data \<noteq> Some True)"
  using loadWords_fetched[OF assms, of fetch] getSampleWords_nonempty[of d c]
  by (simp add: validateWordData_iff)

text \<open>
  C5 evaluated: a 404 for hard/business falls back to the sample bank, the sample
  document for easy/general is accepted, and an entry with only a term is rejected.
\<close>

theorem C5_loadWords_witness:
  "words first_manager (cacheKey Hard Business) = None \<and>
   fetched_bank (fetch_404 (data_path Hard Business)) = None \<and>
   loadWords fetch_404 Hard Business first_manager =
     (False, first_manager\<lparr>words := (words first_manager)(cacheKey Hard Business \<mapsto> sample_easy_general)\<rparr>) \<and>
   loadWords fetch_sample Easy General first_manager =
     (True, first_manager\<lparr>words := (words first_manager)(cacheKey Easy General \<mapsto> sample_easy_general)\<rparr>) \<and>
   validateWordData (JObj [(''words'', JArr [JObj [(''word'', JStr ''Happy'')]])]) \<noteq> Some True"
proof -
  have h1: "words first_manager (cacheKey Hard Business) = None"
    by (simp add: first_manager_def WordManager_new_def)
  have h2: "words first_manager (cacheKey Easy General) = None"
    by (simp add: first_manager_def WordManager_new_def)
  have f1: "fetched_bank (fetch_404 (data_path Hard Business)) = None"
    by (simp add: fetched_bank_def fetch_404_def)
  have f2: "fetched_bank (fetch_sample (data_path Easy General)) = Some sample_easy_general"
    by code_simp
  have s1: "getSampleWords Hard Business = sample_easy_general" by code_simp
  have i1: "property (JObj [(''words'', JArr [JObj [(''word'', JStr ''Happy'')]])]) ''words''
              = Some (JArr [JObj [(''word'', JStr ''Happy'')]]) \<and>
            list_ex incomplete [JObj [(''word'', JStr ''Happy'')]]"
    by code_simp
  show ?thesis
    using C5_loadWords[OF h1, of fetch_404] C5_loadWords[OF h2, of fetch_sample] h1 f1 f2 s1 i1
    by simp
qed

section \<open>Cycling through a bank\<close>

lemma shuffle_loop_mset:
  "i < length xs \<or> i = 0 \<Longrightarrow> mset (fst (shuffle_loop rnd n i xs)) = mset xs"
proof (induction i arbitrary: n xs)
  case 0
  then show ?case by simp
next
  case (Suc i')
  then have i: "Suc i' < length xs" by simp
  have j: "rnd n mod (Suc i' + 1) < length xs"
    proof -
    have "rnd n mod (Suc i' + 1) < Suc i' + 1" by simp
    with i show ?thesis by linarith
  qed
  let ?ys = "xs[Suc i' := xs ! (rnd n mod (Suc i' + 1)), rnd n mod (Suc i' + 1) := xs ! Suc i']"
  have m: "mset ?ys = mset xs" by (rule mset_swap[OF j i])
  have step: "shuffle_loop rnd n (Suc i') xs = shuffle_loop rnd (n + 1) i' ?ys"
    by (simp only: shuffle_loop.simps Let_def)
  have "mset (fst (shuffle_loop rnd (n + 1) i' ?ys)) = mset ?ys"
    by (rule Suc.IH) (use i in simp)
  then show ?case by (simp only: step m)
qed

lemma shuffleArray_mset: "mset (fst (shuffleArray rnd n xs)) = mset xs"
  unfolding shuffleArray_def by (rule shuffle_loop_mset) (cases xs, simp_all)

lemma complete_servable:
  assumes "\<not> incomplete w"
  shows "w \<noteq> JNull" "\<exists>rest. spread (property w ''incorrect_options'') = Some rest"
proof -
  from assms have t: "truthy_opt (property w ''word'')" by (simp add: incomplete_def)
  show "w \<noteq> JNull" using t by (auto simp: property_def)
  from assms have "(case property w ''incorrect_options'' of Some (JArr os) \<Rightarrow> 3 \<le> length os | _ \<Rightarrow> False)"
    by (simp add: incomplete_def)
  then obtain os where "property w ''incorrect_options'' = Some (JArr os)"
    by (auto split: option.splits json.splits)
  then show "\<exists>rest. spread (property w ''incorrect_options'') = Some rest" by simp
qed

lemma getNextWord_cycling:
  assumes "words wm (cacheKey d c) = Some ws" "ws \<noteq> []" "cycleState wm (cacheKey d c) = Some state"
  shows "getNextWord h fetch rnd d c (wm, n) = serve h rnd d c ws state (wm, n)"
  using assms by (simp add: getNextWord_def Let_def)

lemma serve_exhausted:
  assumes "queue state = []"
  shows "serve h rnd d c ws state (wm, n) =
           (EndOfCategory (end_message d c (length ws)) (length ws) (length (visited state)), wm, n)"
  using assms by (simp add: serve_def Let_def)

lemma serve_next:
  assumes "queue state = i # rest" "i < length ws" "\<not> incomplete (ws ! i)"
  shows "\<exists>p n'. serve StorageManager_hooks rnd d c ws state (wm, n) =
           (NextWord p \<lparr>meta_difficulty = d, meta_category = c, remaining = length rest,
                        total = length ws, isLastWord = (length rest = 0)\<rparr>,
            wm\<lparr>cycleState := (cycleState wm)(cacheKey d c \<mapsto>
                  \<lparr>queue = rest, visited = Set_add (property (ws ! i) ''word'') (visited state)\<rparr>)\<rparr>,
            n') \<and> word p = property (ws ! i) ''word''"
proof -
  from complete_servable[OF assms(3)] obtain os where
    nn: "ws ! i \<noteq> JNull" and os: "spread (property (ws ! i) ''incorrect_options'') = Some os"
    by blast
  obtain sh n' where sh: "shuffleArray rnd n (property (ws ! i) ''correct_definition'' # os) = (sh, n')"
    by (cases "shuffleArray rnd n (property (ws ! i) ''correct_definition'' # os)")
  define p where "p = \<lparr>word = property (ws ! i) ''word'', pronunciation = property (ws ! i) ''pronunciation'',
                 options = sh, correctAnswer = property (ws ! i) ''correct_definition''\<rparr>"
  have prep: "prepareWordForGame rnd n (ws ! i) = Some (p, n')"
    by (simp add: prepareWordForGame_def os sh Let_def p_def)
  have hk: "setCycleState StorageManager_hooks = None" by (simp add: StorageManager_hooks_def)
  have "serve StorageManager_hooks rnd d c ws state (wm, n) =
           (NextWord p \<lparr>meta_difficulty = d, meta_category = c, remaining = length rest,
                        total = length ws, isLastWord = (length rest = 0)\<rparr>,
            wm\<lparr>cycleState := (cycleState wm)(cacheKey d c \<mapsto>
                  \<lparr>queue = rest, visited = Set_add (property (ws ! i) ''word'') (visited state)\<rparr>)\<rparr>,
            n')"
    unfolding serve_def using assms(1,2) nn by (simp add: Let_def hk prep)
  moreover have "word p = property (ws ! i) ''word''" by (simp add: p_def)
  ultimately show ?thesis by blast
qed

lemma getNextWord_exhausted:
  assumes "words wm (cacheKey d c) = Some ws" "ws \<noteq> []"
    and "cycleState wm (cacheKey d c) = Some state" "queue state = []"
  shows "getNextWord h fetch rnd d c (wm, n) =
           (EndOfCategory (end_message d c (length ws)) (length ws) (length (visited state)), wm, n)"
  by (simp add: getNextWord_cycling[OF assms(1,2,3)] serve_exhausted[OF assms(4)])

lemma calls_exhausted:
  assumes "words wm (cacheKey d c) = Some ws" "ws \<noteq> []"
    and "cycleState wm (cacheKey d c) = Some state" "queue state = []"
  shows "calls h fetch rnd d c k (wm, n) =
           (replicate k (EndOfCategory (end_message d c (length ws)) (length ws) (length (visited state))),
            wm, n)"
  by (induction k) (simp_all add: getNextWord_exhausted[OF assms])

text \<open>
  When the bank is not cached and has to be replaced by the sample bank, the call that
  loads it returns \<open>null\<close>; the words are served from the next call on.
\<close>

lemma getNextWord_fallback:
  assumes "words wm (cacheKey d c) = None" "fetched_bank (fetch (data_path d c)) = None"
  shows "getNextWord h fetch rnd d c (wm, n) =
           (Null, wm\<lparr>words := (words wm)(cacheKey d c \<mapsto> getSampleWords d c)\<rparr>, n)"
  using assms by (simp add: getNextWord_def Let_def loadWords_fetched)

text \<open>
  When the bank is not cached and the request delivers it, the call goes on with the
  delivered bank in the cache.
\<close>

lemma getNextWord_load:
  assumes "words wm (cacheKey d c) = None" "fetched_bank (fetch (data_path d c)) = Some ws"
  shows "getNextWord h fetch rnd d c (wm, n) =
           getNextWord h fetch rnd d c (wm\<lparr>words := (words wm)(cacheKey d c \<mapsto> ws)\<rparr>, n)"
  using assms by (simp add: getNextWord_def Let_def loadWords_fetched)

text \<open>
  C9. With a non-empty bank in the cache and a cycle whose queue is empty, \<open>getNextWord\<close>
  returns the end-of-category signal with \<open>total\<close> the size of the bank and
  \<open>visitedCount\<close> the size of the visited set, leaves the manager as it was, and goes on
  doing so for any number of calls.
\<close>

theorem C9_exhausted:
  assumes "words wm (cacheKey d c) = Some ws" "ws \<noteq> []"
    and "cycleState wm (cacheKey d c) = Some state" "queue state = []"
  shows "getNextWord h fetch rnd d c (wm, n) =
           (EndOfCategory (end_message d c (length ws)) (length ws) (length (visited state)), wm, n) \<and>
         calls h fetch rnd d c k (wm, n) =
           (replicate k (EndOfCategory (end_message d c (length ws)) (length ws)
                           (length (visited state))), wm, n)"
  using getNextWord_exhausted[OF assms] calls_exhausted[OF assms] by simp

text \<open>
  C9 evaluated on the manager that has served both words of the easy/general sample.
\<close>

theorem C9_exhausted_witness:
  "words (fst played_out) (cacheKey Easy General) = Some sample_easy_general \<and>
   sample_easy_general \<noteq> [] \<and>
   cycleState (fst played_out) (cacheKey Easy General)
     = Some \<lparr>queue = [], visited = [Some (JStr ''Brave''), Some (JStr ''Happy'')]\<rparr> \<and>
   getNextWord StorageManager_hooks fetch_404 counting Easy General (fst played_out, 7)
     = (EndOfCategory (end_message Easy General 2) 2 2, fst played_out, 7) \<and>
   calls StorageManager_hooks fetch_404 counting Easy General 3 (fst played_out, 7)
     = (replicate 3 (EndOfCategory (end_message Easy General 2) 2 2), fst played_out, 7)"
proof -
  let ?st = "\<lparr>queue = [], visited = [Some (JStr ''Brave''), Some (JStr ''Happy'')]\<rparr>"
  have h1: "words (fst played_out) (cacheKey Easy General) = Some sample_easy_general" by code_simp
  have h2: "sample_easy_general \<noteq> []" by (simp add: sample_easy_general_def)
  have h3: "cycleState (fst played_out) (cacheKey Easy General) = Some ?st" by code_simp
  have h4: "queue ?st = []" by simp
  have l: "length sample_easy_general = 2" by (simp add: sample_easy_general_def)
  from C9_exhausted[OF h1 h2 h3 h4, of StorageManager_hooks fetch_404 counting 7 3] h1 h2 h3
  show ?thesis by (simp add: l)
qed


lemma getNextWord_uninitialized:
  assumes "words wm (cacheKey d c) = Some ws" "ws \<noteq> []" "cycleState wm (cacheKey d c) = None"
  shows "getNextWord StorageManager_hooks fetch rnd d c (wm, n) =
           getNextWord StorageManager_hooks fetch rnd d c
             (wm\<lparr>cycleState := (cycleState wm)(cacheKey d c \<mapsto>
                    \<lparr>queue = fst (shuffleArray rnd n [0..<length ws]), visited = []\<rparr>)\<rparr>,
              snd (shuffleArray rnd n [0..<length ws]))"
proof -
  let ?st = "\<lparr>queue = fst (shuffleArray rnd n [0..<length ws]), visited = []\<rparr>"
  let ?wm = "wm\<lparr>cycleState := (cycleState wm)(cacheKey d c \<mapsto> ?st)\<rparr>"
  let ?n = "snd (shuffleArray rnd n [0..<length ws])"
  have ini: "initCycle StorageManager_hooks rnd (cacheKey d c) ws True (wm, n) = (?wm, ?n)"
    by (simp add: initCycle_def StorageManager_hooks_def Let_def case_prod_beta)
  have res: "restoreCycle StorageManager_hooks (cacheKey d c) wm = wm"
    by (simp add: restoreCycle_def StorageManager_hooks_def)
  have l: "getNextWord StorageManager_hooks fetch rnd d c (wm, n)
             = serve StorageManager_hooks rnd d c ws ?st (?wm, ?n)"
    using assms by (simp add: getNextWord_def Let_def res ini)
  have w: "words ?wm (cacheKey d c) = Some ws" using assms(1) by simp
  have c: "cycleState ?wm (cacheKey d c) = Some ?st" by simp
  show ?thesis by (simp only: l getNextWord_cycling[OF w assms(2) c])
qed







text \<open>
  A bank of size 0 is never cycled: every call returns \<open>null\<close> and changes nothing. A
  document with an empty array of words loads with success and leaves such a bank.
\<close>

lemma getNextWord_empty_bank:
  assumes "words wm (cacheKey d c) = Some []"
  shows "getNextWord h fetch rnd d c (wm, n) = (Null, wm, n)"
  using assms by (simp add: getNextWord_def Let_def)

lemma empty_bank_loads:
  "fst (loadWords fetch_empty_bank Easy General first_manager) = True \<and>
   words (snd (loadWords fetch_empty_bank Easy General first_manager)) (cacheKey Easy General) = Some [] \<and>
   fst (getNextWord StorageManager_hooks fetch_empty_bank counting Easy General (first_manager, 0)) = Null"
  by code_simp




section \<open>Resetting\<close>

lemma resetUsedWords_cycle:
  "cycleState (resetUsedWords wm) = cycleState wm \<and> words (resetUsedWords wm) = words wm"
  by (simp add: resetUsedWords_def)

lemma sample_cycle_run:
  "map served_word (fst (calls StorageManager_hooks fetch_sample counting Easy General 3 (first_manager, 0)))
     = [Some (Some (JStr ''Brave'')), Some (Some (JStr ''Happy'')), None]"
  by code_simp

text \<open>
  C2. \<open>resetUsedWords\<close> is meant to make the next \<open>getNextWord\<close> start the key's cycle
  afresh. It clears \<open>usedWords\<close> only, which \<open>getNextWord\<close> never reads: once both words of
  the easy/general sample are served, the call after \<open>resetUsedWords\<close> returns the
  end-of-category signal again, and the cycle still holds the empty queue and both visited
  words.
\<close>

theorem C2_resetUsedWords_keeps_cycle:
  "fst (getNextWord StorageManager_hooks fetch_sample counting Easy General played_out)
     = EndOfCategory (end_message Easy General 2) 2 2 \<and>
   fst (getNextWord StorageManager_hooks fetch_sample counting Easy General
          (resetUsedWords (fst played_out), snd played_out))
     = EndOfCategory (end_message Easy General 2) 2 2 \<and>
   cycleState (resetUsedWords (fst played_out)) (cacheKey Easy General)
     = Some \<lparr>queue = [], visited = [Some (JStr ''Brave''), Some (JStr ''Happy'')]\<rparr>"
  by code_simp

section \<open>Persistence of the cycle\<close>

lemma storage_loadWords: "storage (snd (loadWords fetch d c wm)) = storage wm"
proof (cases "words wm (cacheKey d c)")
  case None
  then show ?thesis by (simp add: loadWords_fetched split: option.splits)
next
  case (Some ws)
  then show ?thesis by (simp add: loadWords_def Let_def)
qed

lemma storage_initCycle:
  "storage (fst (initCycle StorageManager_hooks rnd key ws reshuffle (wm, n))) = storage wm"
  by (simp add: initCycle_def StorageManager_hooks_def Let_def case_prod_beta)

lemma restoreCycle_shipped: "restoreCycle StorageManager_hooks key wm = wm"
  by (simp add: restoreCycle_def StorageManager_hooks_def)

lemma storage_serve:
  "storage (fst (snd (serve StorageManager_hooks rnd d c ws state (wm, n)))) = storage wm"
proof (cases "queue state")
  case Nil
  then show ?thesis by (simp add: serve_exhausted)
next
  case (Cons i rest)
  have hk: "setCycleState StorageManager_hooks = None" by (simp add: StorageManager_hooks_def)
  show ?thesis
  proof (cases "\<not> i < length ws \<or> ws ! i = JNull")
    case True
    then show ?thesis using Cons by (auto simp: serve_def Let_def)
  next
    case False
    then show ?thesis using Cons
      by (cases "prepareWordForGame rnd n (ws ! i)") (auto simp: serve_def Let_def hk)
  qed
qed

lemma storage_getNextWord:
  "storage (fst (snd (getNextWord StorageManager_hooks fetch rnd d c (wm, n)))) = storage wm"
proof -
  obtain loaded wm1 where l: "(if words wm (cacheKey d c) = None then loadWords fetch d c wm else (True, wm)) = (loaded, wm1)"
    by (cases "if words wm (cacheKey d c) = None then loadWords fetch d c wm else (True, wm)")
  have s1: "storage wm1 = storage wm"
    using l storage_loadWords[of fetch d c wm] by (auto split: if_splits)
  show ?thesis
  proof (cases "\<not> loaded \<or> words wm1 (cacheKey d c) = None \<or> words wm1 (cacheKey d c) = Some []")
    case True
    then show ?thesis using l s1 by (auto simp: getNextWord_def Let_def)
  next
    case False
    then obtain ws where ws: "loaded" "words wm1 (cacheKey d c) = Some ws" "ws \<noteq> []" by auto
    obtain wm3 n3 where i: "initCycle StorageManager_hooks rnd (cacheKey d c) ws True (wm1, n) = (wm3, n3)"
      by (cases "initCycle StorageManager_hooks rnd (cacheKey d c) ws True (wm1, n)")
    have s3: "storage wm3 = storage wm1" using storage_initCycle[of rnd "cacheKey d c" ws True wm1 n] i by simp
    show ?thesis
    proof (cases "cycleState wm1 (cacheKey d c)")
      case None
      show ?thesis
      proof (cases "cycleState wm3 (cacheKey d c)")
        case None': None
        then show ?thesis using l ws None i s3 s1
          by (simp add: getNextWord_def Let_def restoreCycle_shipped)
      next
        case (Some st)
        then show ?thesis using l ws None i s3 s1 storage_serve[of rnd d c ws st wm3 n3]
          by (simp add: getNextWord_def Let_def restoreCycle_shipped)
      qed
    next
      case (Some st)
      then show ?thesis using l ws s1 storage_serve[of rnd d c ws st wm1 n]
        by (simp add: getNextWord_def Let_def)
    qed
  qed
qed

lemma first_call_fresh:
  assumes "fetched_bank (fetch (data_path d c)) = Some ws" "ws \<noteq> []"
  shows "\<exists>i rest. fst (shuffleArray rnd n [0..<length ws]) = i # rest \<and>
           cycleState (fst (snd (getNextWord StorageManager_hooks fetch rnd d c (WordManager_new sm, n))))
             (cacheKey d c) = Some \<lparr>queue = rest, visited = [property (ws ! i) ''word'']\<rparr>"
proof -
  let ?W = "(WordManager_new sm)\<lparr>words := (words (WordManager_new sm))(cacheKey d c \<mapsto> ws)\<rparr>"
  let ?order = "fst (shuffleArray rnd n [0..<length ws])"
  let ?st = "\<lparr>queue = ?order, visited = []\<rparr>"
  let ?W1 = "?W\<lparr>cycleState := (cycleState ?W)(cacheKey d c \<mapsto> ?st)\<rparr>"
  let ?n = "snd (shuffleArray rnd n [0..<length ws])"
  have w0: "words (WordManager_new sm) (cacheKey d c) = None" by (simp add: WordManager_new_def)
  have w: "words ?W (cacheKey d c) = Some ws" by simp
  have c0: "cycleState ?W (cacheKey d c) = None" by (simp add: WordManager_new_def)
  have w1: "words ?W1 (cacheKey d c) = Some ws" by simp
  have c1: "cycleState ?W1 (cacheKey d c) = Some ?st" by simp
  have perm: "mset ?order = mset [0..<length ws]" by (rule shuffleArray_mset)
  then have "length ?order = length ws" by (metis size_mset length_upt diff_zero)
  then obtain i rest where ir: "?order = i # rest" using assms(2) by (cases ?order) auto
  have "i \<in> set ?order" by (simp add: ir)
  then have i: "i < length ws" using perm by (metis atLeastLessThan_iff set_mset_mset set_upt)
  have "\<not> list_ex incomplete ws" using assms(1) by (rule fetched_bank_complete)
  then have ci: "\<not> incomplete (ws ! i)" using i by (simp add: list_ex_iff)
  have q: "queue ?st = i # rest" by (simp add: ir)
  from serve_next[OF q i ci, of rnd d c ?W1 ?n] obtain p n' where
    sv: "serve StorageManager_hooks rnd d c ws ?st (?W1, ?n) =
           (NextWord p \<lparr>meta_difficulty = d, meta_category = c, remaining = length rest,
                        total = length ws, isLastWord = (length rest = 0)\<rparr>,
            ?W1\<lparr>cycleState := (cycleState ?W1)(cacheKey d c \<mapsto>
                  \<lparr>queue = rest, visited = Set_add (property (ws ! i) ''word'') (visited ?st)\<rparr>)\<rparr>,
            n')"
    by blast
  have g: "getNextWord StorageManager_hooks fetch rnd d c (WordManager_new sm, n)
          = serve StorageManager_hooks rnd d c ws ?st (?W1, ?n)"
    by (simp only: getNextWord_load[of "WordManager_new sm" d c fetch ws, OF w0 assms(1)]
        getNextWord_uninitialized[OF w assms(2) c0]
        getNextWord_cycling[OF w1 assms(2) c1])
  have fin: "cycleState (fst (snd (getNextWord StorageManager_hooks fetch rnd d c (WordManager_new sm, n))))
               (cacheKey d c) = Some \<lparr>queue = rest, visited = [property (ws ! i) ''word'']\<rparr>"
    by (simp only: g sv) (simp add: Set_add_def)
  show ?thesis using ir fin by blast
qed

text \<open>
  C10. \<open>StorageManager\<close> has neither \<open>getCycleState\<close> nor \<open>setCycleState\<close>. So restoring
  a cycle changes nothing, \<open>initCycle\<close> and \<open>getNextWord\<close> leave the storage object as it
  was, a new manager has no cycle for any key, and its first \<open>getNextWord\<close> for a key
  whose bank loads starts from a fresh shuffle of all indices, whatever the store holds.
\<close>

theorem C10_no_persisted_cycle:
  "getCycleState StorageManager_hooks = None \<and> setCycleState StorageManager_hooks = None \<and>
   restoreCycle StorageManager_hooks key wm = wm \<and>
   storage (fst (initCycle StorageManager_hooks rnd key ws reshuffle (wm, n))) = storage wm \<and>
   storage (fst (snd (getNextWord StorageManager_hooks fetch rnd d c (wm, n)))) = storage wm \<and>
   cycleState (WordManager_new sm) (cacheKey d c) = None \<and>
   (fetched_bank (fetch (data_path d c)) = Some bank \<and> bank \<noteq> [] \<longrightarrow>
      (\<exists>i rest. fst (shuffleArray rnd n [0..<length bank]) = i # rest \<and>
         cycleState (fst (snd (getNextWord StorageManager_hooks fetch rnd d c (WordManager_new sm, n))))
           (cacheKey d c) = Some \<lparr>queue = rest, visited = [property (bank ! i) ''word'']\<rparr>))"
  using first_call_fresh[of fetch d c bank rnd n sm]
  by (simp add: restoreCycle_shipped storage_initCycle storage_getNextWord)
     (simp add: StorageManager_hooks_def WordManager_new_def)

text \<open>
  C10 evaluated on a manager constructed over the store of a played-out game.
\<close>

theorem C10_no_persisted_cycle_witness:
  "fetched_bank (fetch_sample (data_path Easy General)) = Some sample_easy_general \<and>
   sample_easy_general \<noteq> [] \<and>
   (\<exists>i rest. fst (shuffleArray counting 0 [0..<length sample_easy_general]) = i # rest \<and>
      cycleState (fst (snd (getNextWord StorageManager_hooks fetch_sample counting Easy General
                              (WordManager_new (storage (fst played_out)), 0))))
        (cacheKey Easy General)
        = Some \<lparr>queue = rest, visited = [property (sample_easy_general ! i) ''word'']\<rparr>)"
proof -
  have f: "fetched_bank (fetch_sample (data_path Easy General)) = Some sample_easy_general"
    by code_simp
  have h2: "sample_easy_general \<noteq> []" by (simp add: sample_easy_general_def)
  from C10_no_persisted_cycle[of "cacheKey Easy General" first_manager counting sample_easy_general
      True 0 fetch_sample Easy General "storage (fst played_out)" sample_easy_general] f h2
  show ?thesis by simp
qed

end
